theory Spec2Isabelle
  imports Main
begin

section \<open>JavaScript values used by the trap-room script\<close>

text \<open>
  The script \<^verbatim>\<open>frontend/public/aware-main/script.js\<close> keeps its progress in four
  module variables, mirrors them into three \<^verbatim>\<open>localStorage\<close> entries and reads the
  structure of the quiz from the page. This first part models the JavaScript values and
  built-in functions the script calls.

  A JavaScript number is modelled as \<open>NaN\<close> or an integer. The integer stands for the
  double of the same value, which is exact for magnitudes below \<open>2^53\<close>; the script only
  ever adds one to a number or compares two of them. Beyond that magnitude the script
  computes on rounded doubles (\<open>2^53 + 1\<close> is \<open>2^53\<close>, \<^verbatim>\<open>parseInt\<close> rounds a long
  digit string, \<^verbatim>\<open>String\<close> prints an exponent from \<open>10^21\<close> on), which the integers
  do not follow: \<open>js_inc\<close>, \<open>js_string_of_num\<close> and \<open>parseInt\<close> below are the script's
  operations on the numbers that satisfy \<open>js_exact\<close>, the predicate that marks where the
  integers and the script's doubles agree. A JavaScript string is a
  \<^typ>\<open>string\<close>, each \<^typ>\<open>char\<close> standing for the code unit of the same value
  (\<open>U+0000\<close> to \<open>U+00FF\<close>).
\<close>

datatype jsnum = NaN | Num int

text \<open>\<^verbatim>\<open>x++\<close> on a number: \<open>NaN + 1\<close> is \<open>NaN\<close>.\<close>

definition js_inc :: "jsnum \<Rightarrow> jsnum" where
  "js_inc x = (case x of NaN \<Rightarrow> NaN | Num n \<Rightarrow> Num (n + 1))"

text \<open>\<^verbatim>\<open>a >= b\<close> for a count \<open>a\<close>: every comparison with \<open>NaN\<close> is false.\<close>

definition js_ge :: "nat \<Rightarrow> jsnum \<Rightarrow> bool" where
  "js_ge a b = (case b of NaN \<Rightarrow> False | Num n \<Rightarrow> n \<le> int a)"

text \<open>The numbers that the model represents exactly: \<open>NaN\<close> and the safe integers.\<close>

definition js_exact :: "jsnum \<Rightarrow> bool" where
  "js_exact x = (case x of NaN \<Rightarrow> True | Num n \<Rightarrow> \<bar>n\<bar> < 2 ^ 53)"

subsection \<open>Number to string\<close>

definition digit_char :: "nat \<Rightarrow> char" where
  "digit_char d = char_of (48 + d)"

function show_nat :: "nat \<Rightarrow> string" where
  "show_nat n = (if n < 10 then [digit_char n] else show_nat (n div 10) @ [digit_char (n mod 10)])"
  by pat_completeness auto
termination
  by (relation "measure (\<lambda>n. n)") auto

declare show_nat.simps [simp del]

text \<open>
  \<^verbatim>\<open>String(x)\<close>, as in a template literal or \<^verbatim>\<open>localStorage.setItem(k, x)\<close>, for
  \<open>x\<close> within \<open>js_exact\<close>.
\<close>

definition js_string_of_num :: "jsnum \<Rightarrow> string" where
  "js_string_of_num x =
     (case x of NaN \<Rightarrow> ''NaN''
      | Num n \<Rightarrow> (if n < 0 then CHR ''-'' # show_nat (nat (- n)) else show_nat (nat n)))"

subsection \<open>parseInt\<close>

text \<open>
  \<^verbatim>\<open>parseInt(s)\<close> without a radix: leading white space is skipped, a sign is read, a
  prefix \<^verbatim>\<open>0x\<close> or \<^verbatim>\<open>0X\<close> selects radix 16, and the longest prefix of digits is
  converted; no digit at all gives \<open>NaN\<close>. The result is the script's where it
  satisfies \<open>js_exact\<close>; a longer digit string the script reads as a rounded double.
\<close>

definition is_js_space :: "char \<Rightarrow> bool" where
  "is_js_space c = (of_char c \<in> {9, 10, 11, 12, 13, 32, 160 :: nat})"

definition dec_digit :: "char \<Rightarrow> nat option" where
  "dec_digit c = (let k = of_char c :: nat in if 48 \<le> k \<and> k \<le> 57 then Some (k - 48) else None)"

definition hex_digit :: "char \<Rightarrow> nat option" where
  "hex_digit c =
     (let k = of_char c :: nat in
      if 48 \<le> k \<and> k \<le> 57 then Some (k - 48)
      else if 97 \<le> k \<and> k \<le> 102 then Some (k - 87)
      else if 65 \<le> k \<and> k \<le> 70 then Some (k - 55)
      else None)"

fun take_digits :: "(char \<Rightarrow> nat option) \<Rightarrow> string \<Rightarrow> nat list" where
  "take_digits d [] = []"
| "take_digits d (c # cs) = (case d c of None \<Rightarrow> [] | Some v \<Rightarrow> v # take_digits d cs)"

definition radix_value :: "nat \<Rightarrow> nat list \<Rightarrow> nat" where
  "radix_value r ds = foldl (\<lambda>a v. a * r + v) 0 ds"

definition parseInt :: "string \<Rightarrow> jsnum" where
  "parseInt s =
     (let t = dropWhile is_js_space s;
          neg = (case t of [] \<Rightarrow> False | c # _ \<Rightarrow> c = CHR ''-'');
          u = (case t of [] \<Rightarrow> t | c # cs \<Rightarrow> if c = CHR ''+'' \<or> c = CHR ''-'' then cs else t);
          hex = (case u of a # b # _ \<Rightarrow> a = CHR ''0'' \<and> (b = CHR ''x'' \<or> b = CHR ''X'') | _ \<Rightarrow> False);
          ds = (if hex then take_digits hex_digit (drop 2 u) else take_digits dec_digit u)
      in if ds = [] then NaN
         else Num ((if neg then - 1 else 1) * int (radix_value (if hex then 16 else 10) ds)))"

text \<open>
  A \<^verbatim>\<open>data-*\<close> attribute that is absent reads as \<^verbatim>\<open>undefined\<close>, which
  \<^verbatim>\<open>parseInt\<close> first converts to the string \<^verbatim>\<open>"undefined"\<close>.
\<close>

definition parseInt_attr :: "string option \<Rightarrow> jsnum" where
  "parseInt_attr a = (case a of None \<Rightarrow> parseInt ''undefined'' | Some s \<Rightarrow> parseInt s)"

subsection \<open>String.prototype.replace with a string pattern\<close>

text \<open>\<^verbatim>\<open>s.replace(p, "")\<close>: the first occurrence of \<open>p\<close> is removed.\<close>

fun remove_first :: "string \<Rightarrow> string \<Rightarrow> string" where
  "remove_first p [] = []"
| "remove_first p (c # cs) =
     (if take (length p) (c # cs) = p then drop (length p) (c # cs) else c # remove_first p cs)"

subsection \<open>Set\<close>

text \<open>
  A \<^verbatim>\<open>Set\<close> of strings is the list of its elements in insertion order, which is the
  order \<^verbatim>\<open>Array.from\<close> reads them back in.
\<close>

definition set_add :: "string list \<Rightarrow> string \<Rightarrow> string list" where
  "set_add s x = (if x \<in> set s then s else s @ [x])"

definition new_Set :: "string list \<Rightarrow> string list" where
  "new_Set xs = foldl set_add [] xs"

subsection \<open>JSON.stringify on an array of strings\<close>

definition hex_char :: "nat \<Rightarrow> char" where
  "hex_char d = (if d < 10 then char_of (48 + d) else char_of (87 + d))"

text \<open>
  The quotation mark (code \<open>0x22\<close>) and the backslash (code \<open>0x5C\<close>) are escaped,
  control characters become their short escape or \<^verbatim>\<open>\u00XX\<close>, any other code unit
  stands for itself.
\<close>

definition json_escape :: "char \<Rightarrow> string" where
  "json_escape c =
     (if c = CHR 0x22 then [CHR 0x5C, CHR 0x22]
      else if c = CHR 0x5C then [CHR 0x5C, CHR 0x5C]
      else if c = CHR 0x08 then [CHR 0x5C, CHR ''b'']
      else if c = CHR 0x0C then [CHR 0x5C, CHR ''f'']
      else if c = CHR 0x0A then [CHR 0x5C, CHR ''n'']
      else if c = CHR 0x0D then [CHR 0x5C, CHR ''r'']
      else if c = CHR 0x09 then [CHR 0x5C, CHR ''t'']
      else if of_char c < (32 :: nat) then
        [CHR 0x5C, CHR ''u'', CHR ''0'', CHR ''0'',
         hex_char (of_char c div 16), hex_char (of_char c mod 16)]
      else [c])"

definition json_quote :: "string \<Rightarrow> string" where
  "json_quote s = CHR 0x22 # concat (map json_escape s) @ [CHR 0x22]"

fun join_comma :: "string list \<Rightarrow> string" where
  "join_comma [] = []"
| "join_comma [x] = x"
| "join_comma (x # y # ys) = x @ CHR '','' # join_comma (y # ys)"

definition json_stringify :: "string list \<Rightarrow> string" where
  "json_stringify xs = CHR ''['' # join_comma (map json_quote xs) @ [CHR '']'']"

subsection \<open>JSON.parse\<close>

text \<open>
  \<^verbatim>\<open>JSON.parse\<close> is modelled on the texts that denote an array of strings, the
  encoding the script writes. The result is one of three:
  \<^item> \<open>Returns xs\<close>: the text is an array of string literals, \<open>xs\<close> their values;
  \<^item> \<open>Throws\<close>: the text is not JSON, \<^verbatim>\<open>JSON.parse\<close> throws a SyntaxError;
  \<^item> \<open>Unmodelled\<close>: the text begins like a JSON value that is no array of strings of
    code units up to \<open>0xFF\<close>. The real function then throws or returns a value that the
    model has no type for; nothing is stated about such a text.
\<close>

datatype 'a outcome = Returns 'a | Throws | Unmodelled

definition is_json_space :: "char \<Rightarrow> bool" where
  "is_json_space c = (of_char c \<in> {9, 10, 13, 32 :: nat})"

definition json_value_start :: "char \<Rightarrow> bool" where
  "json_value_start c = (c \<in> set ''{[-0123456789tfn'' \<or> c = CHR 0x22)"

definition json_unescape :: "char \<Rightarrow> char option" where
  "json_unescape e =
     (if e = CHR 0x22 then Some (CHR 0x22)
      else if e = CHR 0x5C then Some (CHR 0x5C)
      else if e = CHR ''/'' then Some (CHR ''/'')
      else if e = CHR ''b'' then Some (CHR 0x08)
      else if e = CHR ''f'' then Some (CHR 0x0C)
      else if e = CHR ''n'' then Some (CHR 0x0A)
      else if e = CHR ''r'' then Some (CHR 0x0D)
      else if e = CHR ''t'' then Some (CHR 0x09)
      else None)"

definition hex4 :: "char \<Rightarrow> char \<Rightarrow> char \<Rightarrow> char \<Rightarrow> nat option" where
  "hex4 a b c d =
     (case (hex_digit a, hex_digit b, hex_digit c, hex_digit d) of
        (Some p, Some q, Some r, Some s) \<Rightarrow> Some (((p * 16 + q) * 16 + r) * 16 + s)
      | _ \<Rightarrow> None)"

definition push_char :: "char \<Rightarrow> (string \<times> string) outcome \<Rightarrow> (string \<times> string) outcome" where
  "push_char c r = (case r of Returns (s, rest) \<Rightarrow> Returns (c # s, rest) | Throws \<Rightarrow> Throws
                    | Unmodelled \<Rightarrow> Unmodelled)"

text \<open>
  The body of a string literal, read from just behind its opening quotation mark: the
  value and the text behind the closing quotation mark.
\<close>

fun json_string_body :: "string \<Rightarrow> (string \<times> string) outcome" where
  "json_string_body [] = Throws"
| "json_string_body (c # cs) =
     (if c = CHR 0x22 then Returns ([], cs)
      else if c = CHR 0x5C then
        (case cs of
           [] \<Rightarrow> Throws
         | e # cs' \<Rightarrow>
             if e = CHR ''u'' then
               (case cs' of
                  h1 # h2 # h3 # h4 # rest \<Rightarrow>
                    (case hex4 h1 h2 h3 h4 of
                       None \<Rightarrow> Throws
                     | Some n \<Rightarrow> if n < 256 then push_char (char_of n) (json_string_body rest)
                                else Unmodelled)
                | _ \<Rightarrow> Throws)
             else (case json_unescape e of
                     None \<Rightarrow> Throws
                   | Some ch \<Rightarrow> push_char ch (json_string_body cs')))
      else if of_char c < (32 :: nat) then Throws
      else push_char c (json_string_body cs))"

definition push_elem :: "string \<Rightarrow> string list outcome \<Rightarrow> string list outcome" where
  "push_elem x r = (case r of Returns xs \<Rightarrow> Returns (x # xs) | Throws \<Rightarrow> Throws
                    | Unmodelled \<Rightarrow> Unmodelled)"

text \<open>
  The elements of an array, read from just behind the opening quotation mark of an
  element, up to the end of the text.
\<close>

function json_elements :: "string \<Rightarrow> string list outcome" where
  "json_elements s =
     (case json_string_body s of
        Throws \<Rightarrow> Throws
      | Unmodelled \<Rightarrow> Unmodelled
      | Returns (x, r) \<Rightarrow>
          (case dropWhile is_json_space r of
             [] \<Rightarrow> Throws
           | c # r' \<Rightarrow>
               if c = CHR '']'' then (if dropWhile is_json_space r' = [] then Returns [x] else Throws)
               else if c = CHR '','' then
                 (case dropWhile is_json_space r' of
                    [] \<Rightarrow> Throws
                  | d # r'' \<Rightarrow>
                      if d = CHR 0x22 then push_elem x (json_elements r'')
                      else if json_value_start d then Unmodelled
                      else Throws)
               else Throws))"
  by pat_completeness auto
termination
proof (relation "measure length", goal_cases)
  case 1
  show ?case by simp
next
  case (2 s p x r c r' d r'')
  have shorter: "json_string_body t = Returns (y, u) \<Longrightarrow> length u < length t" for t y u
  proof (induction t arbitrary: y u rule: json_string_body.induct)
    case 1
    then show ?case by simp
  next
    case (2 c cs)
    then show ?case
      by (fastforce simp: push_char_def
            split: if_splits list.splits option.splits outcome.splits prod.splits)
  qed
  have "length r < length s"
    using 2 shorter by metis
  moreover have "length (c # r') \<le> length r"
    using 2 length_dropWhile_le [of is_json_space r] by simp
  moreover have "length (d # r'') \<le> length r'"
    using 2 length_dropWhile_le [of is_json_space r'] by simp
  ultimately show ?case by simp
qed

declare json_elements.simps [simp del]

definition json_parse :: "string \<Rightarrow> string list outcome" where
  "json_parse text =
     (case dropWhile is_json_space text of
        [] \<Rightarrow> Throws
      | c # r \<Rightarrow>
          if c = CHR ''['' then
            (case dropWhile is_json_space r of
               [] \<Rightarrow> Throws
             | d # r' \<Rightarrow>
                 if d = CHR '']'' then (if dropWhile is_json_space r' = [] then Returns [] else Throws)
                 else if d = CHR 0x22 then json_elements r'
                 else if json_value_start d then Unmodelled
                 else Throws)
          else if json_value_start c then Unmodelled
          else Throws)"

text \<open>
  The text that \<open>json_stringify\<close> writes behind the opening quotation mark of the first
  element \<open>x\<close> of an array \<open>x # xs\<close>; the proofs about \<open>json_elements\<close> go along it.
\<close>

fun elements_text :: "string \<Rightarrow> string list \<Rightarrow> string" where
  "elements_text x [] = concat (map json_escape x) @ [CHR 0x22, CHR '']'']"
| "elements_text x (y # ys) =
     concat (map json_escape x) @ CHR 0x22 # CHR '','' # CHR 0x22 # elements_text y ys"

section \<open>The page and the module state\<close>

text \<open>
  The markup of the page is not part of the sources; the script reads from it the tasks
  (elements of class \<^verbatim>\<open>task\<close>), for each task its id, its classes \<^verbatim>\<open>locked\<close> and
  \<^verbatim>\<open>active\<close>, its attribute \<^verbatim>\<open>data-questions-total\<close>, its quizzes and its
  \<^verbatim>\<open>.btn-next\<close> button, and for each quiz the class \<^verbatim>\<open>answered\<close> and, option by
  option, whether \<^verbatim>\<open>data-correct\<close> is \<^verbatim>\<open>"true"\<close>. The markup is taken to hold the
  elements the script dereferences without a test (score and progress elements, the alert
  box, a header in every task, both feedback elements of every quiz), every option inside a
  quiz of its task, and
  no element other than a task under an id of the form the script looks up. What only
  changes the look of the page (feedback texts, option colours, badges, the progress bar)
  is left out.
\<close>

record quiz =
  answered :: bool
  options :: "bool list"

record task =
  task_id :: string
  locked :: bool
  active :: bool
  questionsTotal :: "string option"
  quizzes :: "quiz list"
  nextDisabled :: "bool option"

text \<open>
  \<open>nextDisabled\<close> is \<open>None\<close> for a task without a next button, else the button's
  \<^verbatim>\<open>disabled\<close> flag. \<open>customAlert\<close> is \<open>None\<close> while the alert box is hidden, else its
  title and message. \<open>listening\<close> says that \<^verbatim>\<open>setupEventListeners\<close> has run.
\<close>

record world =
  score :: jsnum
  answeredCorrectlyCount :: nat
  answeredQuizIds :: "string list"
  unlockedTaskIds :: "string list"
  tasks :: "task list"
  localStorage :: "string \<rightharpoonup> string"
  customAlert :: "(string \<times> string) option"
  listening :: bool

definition LS_SCORE :: string where "LS_SCORE = ''aware_score''"
definition LS_ANSWERED :: string where "LS_ANSWERED = ''aware_answered''"
definition LS_UNLOCKED :: string where "LS_UNLOCKED = ''aware_unlocked''"

text \<open>\<^verbatim>\<open>document.querySelectorAll('.quiz').length\<close>\<close>

definition totalQuestions :: "world \<Rightarrow> nat" where
  "totalQuestions w = sum_list (map (\<lambda>t. length (quizzes t)) (tasks w))"

section \<open>Persistence\<close>

definition saveStateToLocalStorage :: "world \<Rightarrow> world" where
  "saveStateToLocalStorage w =
     w\<lparr>localStorage := (localStorage w)
         (LS_SCORE \<mapsto> js_string_of_num (score w),
          LS_ANSWERED \<mapsto> json_stringify (answeredQuizIds w),
          LS_UNLOCKED \<mapsto> json_stringify (unlockedTaskIds w))\<rparr>"

text \<open>The three entries hold what \<open>saveStateToLocalStorage\<close> writes for the variables.\<close>

definition slots_saved :: "world \<Rightarrow> bool" where
  "slots_saved w \<longleftrightarrow>
     localStorage w LS_SCORE = Some (js_string_of_num (score w))
     \<and> localStorage w LS_ANSWERED = Some (json_stringify (answeredQuizIds w))
     \<and> localStorage w LS_UNLOCKED = Some (json_stringify (unlockedTaskIds w))"

text \<open>
  \<^verbatim>\<open>saved ? new Set(JSON.parse(saved)) : new Set()\<close>: a missing entry reads as
  \<^verbatim>\<open>null\<close>, and the empty string is falsy as well.
\<close>

definition load_set :: "string option \<Rightarrow> string list outcome" where
  "load_set saved =
     (case saved of
        None \<Rightarrow> Returns []
      | Some s \<Rightarrow>
          if s = [] then Returns []
          else (case json_parse s of Returns xs \<Rightarrow> Returns (new_Set xs) | Throws \<Rightarrow> Throws
                | Unmodelled \<Rightarrow> Unmodelled))"

definition load_score :: "string option \<Rightarrow> jsnum" where
  "load_score saved =
     (case saved of None \<Rightarrow> Num 0 | Some s \<Rightarrow> if s = [] then Num 0 else parseInt s)"

text \<open>
  How a run of statements ends: normally, by an exception that nothing catches, or at a
  text on which \<open>json_parse\<close> is \<open>Unmodelled\<close>. The world returned with it holds the
  assignments made up to that point, as the script has made them; what the script does
  from that point on in a load that ends \<open>OutsideModel\<close> is not modelled.
\<close>

datatype completion = Normal | Exception | OutsideModel

definition restoreStateFromLocalStorage :: "world \<Rightarrow> completion \<times> world" where
  "restoreStateFromLocalStorage w =
     (let w1 = w\<lparr>score := load_score (localStorage w LS_SCORE)\<rparr> in
      case load_set (localStorage w LS_ANSWERED) of
        Throws \<Rightarrow> (Exception, w1)
      | Unmodelled \<Rightarrow> (OutsideModel, w1)
      | Returns a \<Rightarrow>
          (let w2 = w1\<lparr>answeredQuizIds := a, answeredCorrectlyCount := length a\<rparr> in
           case load_set (localStorage w LS_UNLOCKED) of
             Throws \<Rightarrow> (Exception, w2)
           | Unmodelled \<Rightarrow> (OutsideModel, w2)
           | Returns u \<Rightarrow> (Normal, w2\<lparr>unlockedTaskIds := u\<rparr>)))"

section \<open>Restoring the page\<close>

definition quizId :: "task \<Rightarrow> nat \<Rightarrow> string" where
  "quizId t quizIdx = task_id t @ CHR ''_'' # show_nat quizIdx"

definition answeredInTask :: "task \<Rightarrow> nat" where
  "answeredInTask t = length (filter answered (quizzes t))"

definition totalInTask :: "task \<Rightarrow> jsnum" where
  "totalInTask t = parseInt_attr (questionsTotal t)"

text \<open>
  The test \<^verbatim>\<open>answeredInTask >= totalInTask\<close>, which both \<^verbatim>\<open>handleOptionClick\<close> and
  \<^verbatim>\<open>restoreUIState\<close> make before they enable the next button of a task.
\<close>

definition advance_eligible :: "task \<Rightarrow> bool" where
  "advance_eligible t = js_ge (answeredInTask t) (totalInTask t)"

definition enable_next :: "task \<Rightarrow> task" where
  "enable_next t = t\<lparr>nextDisabled := map_option (\<lambda>_. False) (nextDisabled t)\<rparr>"

definition restore_answered :: "string list \<Rightarrow> task \<Rightarrow> task" where
  "restore_answered ids t =
     t\<lparr>quizzes := map (\<lambda>(quizIdx, q). if quizId t quizIdx \<in> set ids then q\<lparr>answered := True\<rparr> else q)
                     (enumerate 0 (quizzes t))\<rparr>"

definition restore_unlocked :: "string list \<Rightarrow> task \<Rightarrow> task" where
  "restore_unlocked ids t = (if task_id t \<in> set ids then t\<lparr>locked := False\<rparr> else t)"

definition restore_next :: "task \<Rightarrow> task" where
  "restore_next t = (if advance_eligible t then enable_next t else t)"

definition restoreUIState :: "world \<Rightarrow> world" where
  "restoreUIState w =
     (let w1 = w\<lparr>tasks := map (restore_answered (answeredQuizIds w)) (tasks w)\<rparr>;
          w2 = w1\<lparr>tasks := map (restore_unlocked (unlockedTaskIds w1)) (tasks w1)\<rparr>
      in w2\<lparr>tasks := map restore_next (tasks w2)\<rparr>)"

definition initializeGame :: "world \<Rightarrow> completion \<times> world" where
  "initializeGame w =
     (case restoreStateFromLocalStorage w of
        (Normal, w1) \<Rightarrow> (Normal, restoreUIState (w1\<lparr>listening := True\<rparr>))
      | (c, w1) \<Rightarrow> (c, w1))"

text \<open>
  Loading the page: the module variables get their initial values, the tasks are those
  of the markup, the alert box is hidden, and \<^verbatim>\<open>initializeGame\<close> runs.
\<close>

definition load_page :: "task list \<Rightarrow> (string \<rightharpoonup> string) \<Rightarrow> completion \<times> world" where
  "load_page markup store =
     initializeGame
       \<lparr>score = Num 0, answeredCorrectlyCount = 0, answeredQuizIds = [], unlockedTaskIds = [],
        tasks = markup, localStorage = store, customAlert = None, listening = False\<rparr>"

section \<open>The event handlers\<close>

definition showCustomAlert :: "string \<Rightarrow> string \<Rightarrow> world \<Rightarrow> world" where
  "showCustomAlert title message w = w\<lparr>customAlert := Some (title, message)\<rparr>"

definition hideCustomAlert :: "world \<Rightarrow> world" where
  "hideCustomAlert w = w\<lparr>customAlert := None\<rparr>"

definition handleTaskHeaderClick :: "nat \<Rightarrow> world \<Rightarrow> world" where
  "handleTaskHeaderClick i w =
     (if \<not> i < length (tasks w) then w
      else if locked (tasks w ! i) then
        showCustomAlert ''Task Locked!'' ''You must complete the previous tasks to unlock this one.'' w
      else
        w\<lparr>tasks := map (\<lambda>(j, t). if j = i then t\<lparr>active := \<not> active t\<rparr> else t\<lparr>active := False\<rparr>)
                       (enumerate 0 (tasks w))\<rparr>)"

text \<open>
  A click on option \<open>k\<close> of quiz \<open>q\<close> of task \<open>i\<close>. The listener exists for the options
  of the markup only.
\<close>

definition handleOptionClick :: "nat \<Rightarrow> nat \<Rightarrow> nat \<Rightarrow> world \<Rightarrow> world" where
  "handleOptionClick i q k w =
     (if \<not> (i < length (tasks w) \<and> q < length (quizzes (tasks w ! i))
             \<and> k < length (options (quizzes (tasks w ! i) ! q))) then w
      else
        let currentTask = tasks w ! i;
            quiz = quizzes currentTask ! q;
            qid = quizId currentTask q
        in if qid \<in> set (answeredQuizIds w) then w
           else if options quiz ! k then
             (let t1 = currentTask\<lparr>quizzes := (quizzes currentTask)[q := quiz\<lparr>answered := True\<rparr>]\<rparr>;
                  w1 = saveStateToLocalStorage
                         (w\<lparr>tasks := (tasks w)[i := t1],
                            score := js_inc (score w),
                            answeredCorrectlyCount := Suc (answeredCorrectlyCount w),
                            answeredQuizIds := set_add (answeredQuizIds w) qid\<rparr>)
              in if advance_eligible t1 then
                   saveStateToLocalStorage
                     (w1\<lparr>tasks := (tasks w1)[i := enable_next t1],
                         unlockedTaskIds := set_add (unlockedTaskIds w1) (task_id t1)\<rparr>)
                 else w1)
           else w)"

text \<open>
  \<^verbatim>\<open>parseInt(currentTask.id.replace('task', ''))\<close> and the id built from its successor.
\<close>

definition currentTaskId :: "string \<Rightarrow> jsnum" where
  "currentTaskId cur = parseInt (remove_first ''task'' cur)"

definition nextTaskId :: "string \<Rightarrow> string" where
  "nextTaskId cur = ''task'' @ js_string_of_num (js_inc (currentTaskId cur))"

text \<open>
  The number in the id and its successor are numbers the model represents exactly, so
  that \<open>nextTaskId\<close> is the id the script computes.
\<close>

definition exact_successor :: "string \<Rightarrow> bool" where
  "exact_successor cur \<longleftrightarrow> js_exact (currentTaskId cur) \<and> js_exact (js_inc (currentTaskId cur))"

text \<open>\<^verbatim>\<open>document.getElementById\<close>: the first element with the id, in document order.\<close>

fun getElementById :: "string \<Rightarrow> task list \<Rightarrow> nat option" where
  "getElementById x [] = None"
| "getElementById x (t # ts) =
     (if task_id t = x then Some 0 else map_option Suc (getElementById x ts))"

definition unlockAndActivateTask :: "task \<Rightarrow> task" where
  "unlockAndActivateTask t = t\<lparr>locked := False, active := True\<rparr>"

definition completion_message :: "world \<Rightarrow> string" where
  "completion_message w =
     ''You've completed the Cyber Trap Room! Your final score is '' @ js_string_of_num (score w)
       @ CHR ''/'' # show_nat (totalQuestions w) @ ''. Keep an eye out for phishing attempts!''"

definition handleNextButtonClick :: "nat \<Rightarrow> world \<Rightarrow> world" where
  "handleNextButtonClick i w =
     (if \<not> (i < length (tasks w) \<and> nextDisabled (tasks w ! i) \<noteq> None) then w
      else
        let currentTask = tasks w ! i;
            w1 = w\<lparr>tasks := (tasks w)[i := currentTask\<lparr>active := False\<rparr>]\<rparr>
        in case getElementById (nextTaskId (task_id currentTask)) (tasks w1) of
             Some j \<Rightarrow>
               (let nextTask = unlockAndActivateTask (tasks w1 ! j)
                in saveStateToLocalStorage
                     (w1\<lparr>tasks := (tasks w1)[j := nextTask],
                         unlockedTaskIds := set_add (unlockedTaskIds w1) (task_id nextTask)\<rparr>))
           | None \<Rightarrow> showCustomAlert ''Congratulations!'' (completion_message w1) w1)"

text \<open>
  The reset button removes the three entries and reloads the page, which runs the whole
  script again on the markup.
\<close>

definition clear_slots :: "(string \<rightharpoonup> string) \<Rightarrow> (string \<rightharpoonup> string)" where
  "clear_slots store = store(LS_SCORE := None, LS_ANSWERED := None, LS_UNLOCKED := None)"

definition handleResetClick :: "task list \<Rightarrow> world \<Rightarrow> completion \<times> world" where
  "handleResetClick markup w = load_page markup (clear_slots (localStorage w))"

section \<open>Sessions\<close>

text \<open>
  What the user can do to a loaded page. A click reaches a handler only when the
  listeners were attached, and a button that is disabled dispatches no click event: that
  flag is the only gate in front of \<open>handleNextButtonClick\<close>. \<open>ResetClick\<close> and
  \<open>Reload\<close> end the session and start the next one on the stored entries.
\<close>

datatype command =
  OptionClick nat nat nat | NextClick nat | HeaderClick nat | AlertClose | ResetClick | Reload

definition in_session :: "command \<Rightarrow> bool" where
  "in_session c = (c \<noteq> ResetClick \<and> c \<noteq> Reload)"

fun step :: "task list \<Rightarrow> world \<Rightarrow> command \<Rightarrow> world" where
  "step markup w (OptionClick i q k) = (if listening w then handleOptionClick i q k w else w)"
| "step markup w (NextClick i) =
     (if listening w \<and> i < length (tasks w) \<and> nextDisabled (tasks w ! i) = Some False
      then handleNextButtonClick i w else w)"
| "step markup w (HeaderClick i) = (if listening w then handleTaskHeaderClick i w else w)"
| "step markup w AlertClose = (if listening w then hideCustomAlert w else w)"
| "step markup w ResetClick = (if listening w then snd (handleResetClick markup w) else w)"
| "step markup w Reload = snd (load_page markup (localStorage w))"

definition run :: "task list \<Rightarrow> world \<Rightarrow> command list \<Rightarrow> world" where
  "run markup w cs = foldl (step markup) w cs"

section \<open>Invariants\<close>

text \<open>
  The three entries are absent, as on a first visit and after a reset.
\<close>

definition slots_absent :: "world \<Rightarrow> bool" where
  "slots_absent w \<longleftrightarrow>
     localStorage w LS_SCORE = None \<and> localStorage w LS_ANSWERED = None
     \<and> localStorage w LS_UNLOCKED = None"

text \<open>
  The score counts the answered ids, both sets are sets, and the store holds the
  variables or nothing at all.
\<close>

definition in_sync :: "world \<Rightarrow> bool" where
  "in_sync w \<longleftrightarrow>
     score w = Num (int (length (answeredQuizIds w)))
     \<and> distinct (answeredQuizIds w) \<and> distinct (unlockedTaskIds w)
     \<and> (slots_saved w
         \<or> slots_absent w \<and> answeredQuizIds w = [] \<and> unlockedTaskIds w = [])"

text \<open>
  The next button of a task is enabled only if the task passes the test of
  \<open>advance_eligible\<close>.
\<close>

definition gate_ok :: "task \<Rightarrow> bool" where
  "gate_ok t \<longleftrightarrow> (nextDisabled t = Some False \<longrightarrow> advance_eligible t)"

definition gated :: "task list \<Rightarrow> bool" where
  "gated ts \<longleftrightarrow> (\<forall>t \<in> set ts. gate_ok t)"

section \<open>A page to compute on\<close>

text \<open>
  The catalogue of the specification's scenarios: \<^verbatim>\<open>task1\<close> with two quiz items,
  \<^verbatim>\<open>task2\<close> with one, the second task locked and every next button disabled, as a
  page would declare them.
\<close>

definition demo_markup :: "task list" where
  "demo_markup =
     [\<lparr>task_id = ''task1'', locked = False, active = True, questionsTotal = Some ''2'',
       quizzes = [\<lparr>answered = False, options = [False, True]\<rparr>,
                  \<lparr>answered = False, options = [True, False]\<rparr>],
       nextDisabled = Some True\<rparr>,
      \<lparr>task_id = ''task2'', locked = True, active = False, questionsTotal = Some ''1'',
       quizzes = [\<lparr>answered = False, options = [True]\<rparr>],
       nextDisabled = Some True\<rparr>]"

text \<open>The page freshly loaded on an empty store.\<close>

definition demo_fresh :: world where
  "demo_fresh = snd (load_page demo_markup Map.empty)"

text \<open>The first item of the first task answered, the second still open.\<close>

definition demo_one_left :: world where
  "demo_one_left = run demo_markup demo_fresh [OptionClick 0 0 1]"

text \<open>Both items of the first task answered.\<close>

definition demo_answered :: world where
  "demo_answered = run demo_markup demo_fresh [OptionClick 0 0 1, OptionClick 0 1 0]"

text \<open>Every item answered and the second task reached.\<close>

definition demo_finished :: world where
  "demo_finished =
     run demo_markup demo_fresh [OptionClick 0 0 1, OptionClick 0 1 0, NextClick 0, OptionClick 1 0 0]"

text \<open>A task that declares no \<^verbatim>\<open>data-questions-total\<close> and holds no quiz.\<close>

definition demo_untotalled :: task where
  "demo_untotalled =
     \<lparr>task_id = ''task1'', locked = False, active = True, questionsTotal = None,
      quizzes = [], nextDisabled = Some True\<rparr>"

section \<open>Facts about the built-in functions\<close>

subsection \<open>Numbers survive \<open>String\<close> and \<open>parseInt\<close>\<close>

lemma dec_digit_digit_char: "d < 10 \<Longrightarrow> dec_digit (digit_char d) = Some d"
  by (simp add: dec_digit_def digit_char_def)

lemma show_nat_digits: "\<forall>c \<in> set (show_nat n). dec_digit c \<noteq> None"
proof (induction n rule: show_nat.induct)
  case (1 n)
  show ?case
  proof (cases "n < 10")
    case True
    then show ?thesis by (subst show_nat.simps) (simp add: dec_digit_digit_char)
  next
    case False
    then show ?thesis using 1 by (subst show_nat.simps) (simp add: dec_digit_digit_char)
  qed
qed

lemma show_nat_not_Nil: "show_nat n \<noteq> []"
  by (subst show_nat.simps) simp

lemma take_digits_append:
  "\<forall>c \<in> set xs. d c \<noteq> None \<Longrightarrow> take_digits d (xs @ ys) = map (\<lambda>c. the (d c)) xs @ take_digits d ys"
  by (induction xs) auto

lemma radix_value_snoc: "radix_value r (ds @ [v]) = radix_value r ds * r + v"
  by (simp add: radix_value_def)

lemma show_nat_value: "radix_value 10 (map (\<lambda>c. the (dec_digit c)) (show_nat n)) = n"
proof (induction n rule: show_nat.induct)
  case (1 n)
  show ?case
  proof (cases "n < 10")
    case True
    then show ?thesis
      by (subst show_nat.simps) (simp add: dec_digit_digit_char radix_value_def)
  next
    case False
    then have "radix_value 10 (map (\<lambda>c. the (dec_digit c)) (show_nat (n div 10))) = n div 10"
      using 1 by simp
    with False show ?thesis
      by (subst show_nat.simps) (simp add: dec_digit_digit_char radix_value_snoc)
  qed
qed

lemma take_digits_show_nat:
  "take_digits dec_digit (show_nat n) = map (\<lambda>c. the (dec_digit c)) (show_nat n)"
  using take_digits_append [OF show_nat_digits, of n "[]"] by simp

lemma dec_digit_not_space: "dec_digit c \<noteq> None \<Longrightarrow> \<not> is_js_space c"
  by (auto simp: dec_digit_def is_js_space_def Let_def split: if_splits)

lemma dec_digit_not_sign: "dec_digit c \<noteq> None \<Longrightarrow> c \<noteq> CHR ''-'' \<and> c \<noteq> CHR ''+'' \<and> c \<noteq> CHR ''x'' \<and> c \<noteq> CHR ''X''"
  by (auto simp: dec_digit_def Let_def split: if_splits)

lemma parseInt_digits:
  assumes "\<forall>c \<in> set ds. dec_digit c \<noteq> None" "ds \<noteq> []"
  shows "parseInt ds = Num (int (radix_value 10 (map (\<lambda>c. the (dec_digit c)) ds)))"
    and "parseInt (CHR ''-'' # ds) = Num (- int (radix_value 10 (map (\<lambda>c. the (dec_digit c)) ds)))"
proof -
  obtain c cs where ds: "ds = c # cs" using assms(2) by (cases ds) auto
  have c: "dec_digit c \<noteq> None" using assms(1) ds by simp
  have nohex: "\<not> (case ds of a # b # _ \<Rightarrow> a = CHR ''0'' \<and> (b = CHR ''x'' \<or> b = CHR ''X'') | _ \<Rightarrow> False)"
    using assms(1) ds dec_digit_not_sign by (cases cs) auto
  have td: "take_digits dec_digit ds = map (\<lambda>c. the (dec_digit c)) ds"
    using take_digits_append [OF assms(1), of "[]"] by simp
  have dw: "dropWhile is_js_space ds = ds"
    using c ds dec_digit_not_space by simp
  have ne: "map (\<lambda>c. the (dec_digit c)) ds \<noteq> []" using assms(2) by simp
  show "parseInt ds = Num (int (radix_value 10 (map (\<lambda>c. the (dec_digit c)) ds)))"
    unfolding parseInt_def dw Let_def using nohex td ne c ds dec_digit_not_sign [OF c]
    by (simp del: take_digits.simps)
  have sp: "\<not> is_js_space CHR ''-''" by (simp add: is_js_space_def)
  show "parseInt (CHR ''-'' # ds) = Num (- int (radix_value 10 (map (\<lambda>c. the (dec_digit c)) ds)))"
    unfolding parseInt_def Let_def using nohex td ne sp
    by (simp del: take_digits.simps)
qed

lemma parseInt_string_of_num: "parseInt (js_string_of_num x) = x"
proof (cases x)
  case NaN
  then show ?thesis by (simp add: js_string_of_num_def) code_simp
next
  case (Num n)
  show ?thesis
  proof (cases "n < 0")
    case True
    then show ?thesis
      using Num parseInt_digits(2) [OF show_nat_digits show_nat_not_Nil, of "nat (- n)"]
      by (simp add: js_string_of_num_def show_nat_value)
  next
    case False
    then show ?thesis
      using Num parseInt_digits(1) [OF show_nat_digits show_nat_not_Nil, of "nat n"]
      by (simp add: js_string_of_num_def show_nat_value)
  qed
qed

subsection \<open>Arrays of strings survive \<open>JSON.stringify\<close> and \<open>JSON.parse\<close>\<close>

lemma hex_digit_hex_char: "d < 16 \<Longrightarrow> hex_digit (hex_char d) = Some d"
  by (auto simp: hex_digit_def hex_char_def Let_def)

lemma hex4_control:
  assumes "k < 32"
  shows "hex4 CHR ''0'' CHR ''0'' (hex_char (k div 16)) (hex_char (k mod 16)) = Some k"
proof -
  have z: "hex_digit CHR ''0'' = Some 0" by (simp add: hex_digit_def)
  have a: "hex_digit (hex_char (k div 16)) = Some (k div 16)"
    using assms by (intro hex_digit_hex_char) simp
  have b: "hex_digit (hex_char (k mod 16)) = Some (k mod 16)"
    by (intro hex_digit_hex_char) simp
  show ?thesis by (simp add: hex4_def z a b)
qed

lemma json_string_body_escape:
  "json_string_body (json_escape c @ rest) = push_char c (json_string_body rest)"
proof -
  consider (q) "c = CHR 0x22" | (b) "c = CHR 0x5C" | (s) "c \<in> {CHR 0x08, CHR 0x0C, CHR 0x0A, CHR 0x0D, CHR 0x09}"
    | (u) "c \<notin> {CHR 0x22, CHR 0x5C, CHR 0x08, CHR 0x0C, CHR 0x0A, CHR 0x0D, CHR 0x09}" "of_char c < (32::nat)"
    | (p) "c \<notin> {CHR 0x22, CHR 0x5C, CHR 0x08, CHR 0x0C, CHR 0x0A, CHR 0x0D, CHR 0x09}" "\<not> of_char c < (32::nat)"
    by blast
  then show ?thesis
  proof cases
    case q
    then show ?thesis by (simp add: json_escape_def json_unescape_def)
  next
    case b
    then show ?thesis by (simp add: json_escape_def json_unescape_def)
  next
    case s
    then show ?thesis by (auto simp: json_escape_def json_unescape_def)
  next
    case u
    then show ?thesis
      using hex4_control [OF u(2)] by (simp add: json_escape_def)
  next
    case p
    then show ?thesis by (simp add: json_escape_def)
  qed
qed

lemma json_string_body_quote:
  "json_string_body (concat (map json_escape s) @ CHR 0x22 # rest) = Returns (s, rest)"
proof (induction s)
  case Nil
  show ?case by simp
next
  case (Cons c s)
  have "json_string_body (concat (map json_escape (c # s)) @ CHR 0x22 # rest)
        = json_string_body (json_escape c @ (concat (map json_escape s) @ CHR 0x22 # rest))"
    by simp
  also have "\<dots> = push_char c (json_string_body (concat (map json_escape s) @ CHR 0x22 # rest))"
    by (rule json_string_body_escape)
  also have "\<dots> = Returns (c # s, rest)"
    by (simp add: Cons.IH push_char_def)
  finally show ?case .
qed

lemma json_elements_text: "json_elements (elements_text x xs) = Returns (x # xs)"
proof (induction xs arbitrary: x)
  case Nil
  show ?case
    by (subst json_elements.simps) (simp add: json_string_body_quote is_json_space_def)
next
  case (Cons y ys)
  show ?case
    by (subst json_elements.simps)
       (simp add: json_string_body_quote is_json_space_def Cons.IH push_elem_def)
qed

lemma json_stringify_Cons:
  "json_stringify (x # xs) = CHR ''['' # CHR 0x22 # elements_text x xs"
  by (induction xs arbitrary: x) (simp_all add: json_stringify_def json_quote_def)

lemma json_parse_stringify: "json_parse (json_stringify xs) = Returns xs"
proof (cases xs)
  case Nil
  then show ?thesis by (simp add: json_parse_def json_stringify_def is_json_space_def)
next
  case (Cons x ys)
  then show ?thesis
    by (simp add: json_stringify_Cons json_parse_def is_json_space_def json_elements_text)
qed

lemma json_stringify_not_Nil: "json_stringify xs \<noteq> []"
  by (simp add: json_stringify_def)

lemma set_add_acc: "distinct (acc @ xs) \<Longrightarrow> foldl set_add acc xs = acc @ xs"
  by (induction xs arbitrary: acc) (auto simp: set_add_def)

lemma new_Set_distinct: "distinct xs \<Longrightarrow> new_Set xs = xs"
  using set_add_acc [of "[]" xs] by (simp add: new_Set_def)

lemma set_foldl_set_add: "set (foldl set_add acc xs) = set acc \<union> set xs"
  by (induction xs arbitrary: acc) (auto simp: set_add_def)

lemma set_new_Set: "set (new_Set xs) = set xs"
  by (simp add: new_Set_def set_foldl_set_add)

lemma distinct_set_add: "distinct s \<Longrightarrow> distinct (set_add s x)"
  by (simp add: set_add_def)

lemma distinct_foldl_set_add: "distinct acc \<Longrightarrow> distinct (foldl set_add acc xs)"
  by (induction xs arbitrary: acc) (simp_all add: distinct_set_add)

lemma distinct_new_Set: "distinct (new_Set xs)"
  by (simp add: new_Set_def distinct_foldl_set_add)

section \<open>Saving and loading\<close>

lemma LS_distinct [simp]:
  "LS_SCORE \<noteq> LS_ANSWERED" "LS_SCORE \<noteq> LS_UNLOCKED" "LS_ANSWERED \<noteq> LS_UNLOCKED"
  "LS_ANSWERED \<noteq> LS_SCORE" "LS_UNLOCKED \<noteq> LS_SCORE" "LS_UNLOCKED \<noteq> LS_ANSWERED"
  by (simp_all add: LS_SCORE_def LS_ANSWERED_def LS_UNLOCKED_def)

lemma js_string_of_num_not_Nil: "js_string_of_num x \<noteq> []"
  by (cases x) (simp_all add: js_string_of_num_def show_nat_not_Nil)

lemma load_score_saved: "load_score (Some (js_string_of_num x)) = x"
  by (simp add: load_score_def js_string_of_num_not_Nil parseInt_string_of_num)

lemma load_set_saved: "load_set (Some (json_stringify xs)) = Returns (new_Set xs)"
  by (simp add: load_set_def json_stringify_not_Nil json_parse_stringify)

lemma saved_slots:
  "localStorage (saveStateToLocalStorage w) LS_SCORE = Some (js_string_of_num (score w))"
  "localStorage (saveStateToLocalStorage w) LS_ANSWERED = Some (json_stringify (answeredQuizIds w))"
  "localStorage (saveStateToLocalStorage w) LS_UNLOCKED = Some (json_stringify (unlockedTaskIds w))"
  by (simp_all add: saveStateToLocalStorage_def)

lemma save_fields [simp]:
  "score (saveStateToLocalStorage w) = score w"
  "answeredCorrectlyCount (saveStateToLocalStorage w) = answeredCorrectlyCount w"
  "answeredQuizIds (saveStateToLocalStorage w) = answeredQuizIds w"
  "unlockedTaskIds (saveStateToLocalStorage w) = unlockedTaskIds w"
  "tasks (saveStateToLocalStorage w) = tasks w"
  "customAlert (saveStateToLocalStorage w) = customAlert w"
  "listening (saveStateToLocalStorage w) = listening w"
  by (simp_all add: saveStateToLocalStorage_def)

lemma slots_saved_save: "slots_saved (saveStateToLocalStorage w)"
  by (simp add: slots_saved_def saveStateToLocalStorage_def)

lemma restoreUIState_vars [simp]:
  "score (restoreUIState w) = score w"
  "answeredCorrectlyCount (restoreUIState w) = answeredCorrectlyCount w"
  "answeredQuizIds (restoreUIState w) = answeredQuizIds w"
  "unlockedTaskIds (restoreUIState w) = unlockedTaskIds w"
  "localStorage (restoreUIState w) = localStorage w"
  "customAlert (restoreUIState w) = customAlert w"
  "listening (restoreUIState w) = listening w"
  by (simp_all add: restoreUIState_def Let_def)

text \<open>A page load on a store whose three entries hold a saved state.\<close>

lemma load_page_saved:
  assumes "store LS_SCORE = Some (js_string_of_num x)"
      and "store LS_ANSWERED = Some (json_stringify a)"
      and "store LS_UNLOCKED = Some (json_stringify u)"
  shows "fst (load_page markup store) = Normal"
    and "score (snd (load_page markup store)) = x"
    and "answeredQuizIds (snd (load_page markup store)) = new_Set a"
    and "unlockedTaskIds (snd (load_page markup store)) = new_Set u"
    and "answeredCorrectlyCount (snd (load_page markup store)) = length (new_Set a)"
    and "localStorage (snd (load_page markup store)) = store"
    and "listening (snd (load_page markup store))"
  using assms
  by (simp_all add: load_page_def initializeGame_def restoreStateFromLocalStorage_def
        load_score_saved load_set_saved Let_def)

section \<open>The handlers, one by one\<close>

lemma enable_next_fields [simp]:
  "task_id (enable_next t) = task_id t"
  "locked (enable_next t) = locked t"
  "active (enable_next t) = active t"
  "questionsTotal (enable_next t) = questionsTotal t"
  "quizzes (enable_next t) = quizzes t"
  by (simp_all add: enable_next_def)

lemma in_set_add [simp]: "x \<in> set (set_add s y) \<longleftrightarrow> x = y \<or> x \<in> set s"
  by (auto simp: set_add_def)

lemma map_update_same: "(map f xs)[i := f (xs ! i)] = map f xs"
  by (metis list_update_id map_update)

lemma handleOptionClick_answered:
  "quizId (tasks w ! i) q \<in> set (answeredQuizIds w) \<Longrightarrow> handleOptionClick i q k w = w"
  by (simp add: handleOptionClick_def Let_def)

lemma handleOptionClick_correct:
  assumes "i < length (tasks w)" "q < length (quizzes (tasks w ! i))"
      and "k < length (options (quizzes (tasks w ! i) ! q))"
      and "options (quizzes (tasks w ! i) ! q) ! k"
      and "quizId (tasks w ! i) q \<notin> set (answeredQuizIds w)"
  shows "score (handleOptionClick i q k w) = js_inc (score w)"
    and "answeredQuizIds (handleOptionClick i q k w) = answeredQuizIds w @ [quizId (tasks w ! i) q]"
    and "slots_saved (handleOptionClick i q k w)"
  using assms
  by (simp_all add: handleOptionClick_def Let_def set_add_def slots_saved_save)

lemma handleOptionClick_cases:
  "handleOptionClick i q k w = w \<or> (\<exists>v. handleOptionClick i q k w = saveStateToLocalStorage v)"
  by (auto simp: handleOptionClick_def Let_def)

lemma handleOptionClick_task_ids:
  "map task_id (tasks (handleOptionClick i q k w)) = map task_id (tasks w)"
  by (simp add: handleOptionClick_def Let_def map_update map_update_same)

lemma handleOptionClick_locked:
  "map locked (tasks (handleOptionClick i q k w)) = map locked (tasks w)"
  by (simp add: handleOptionClick_def Let_def map_update map_update_same)

lemma handleOptionClick_unlocked:
  "set (unlockedTaskIds (handleOptionClick i q k w)) \<subseteq> insert (task_id (tasks w ! i)) (set (unlockedTaskIds w))"
  by (auto simp: handleOptionClick_def Let_def)

lemma js_inc_fixed: "js_inc v = v \<Longrightarrow> v = NaN"
  by (cases v) (simp_all add: js_inc_def)

lemma remove_first_prefix: "remove_first p (p @ s) = s"
proof (cases "p @ s")
  case Nil
  then show ?thesis by simp
next
  case (Cons a l)
  have "take (length p) (a # l) = p" and "drop (length p) (a # l) = s"
    using Cons [symmetric] by simp_all
  then show ?thesis
    unfolding Cons by (simp del: take_Suc_Cons drop_Suc_Cons)
qed



text \<open>Among the ids with an exact successor, only \<^verbatim>\<open>taskNaN\<close> is its own successor.\<close>

lemma nextTaskId_fixed:
  assumes "exact_successor x" and "nextTaskId x = x"
  shows "x = ''taskNaN''"
proof -
  define v where "v = parseInt (remove_first ''task'' x)"
  have x: "x = ''task'' @ js_string_of_num (js_inc v)"
    using assms(2) by (simp add: nextTaskId_def currentTaskId_def v_def)
  have "remove_first ''task'' x = js_string_of_num (js_inc v)"
    by (subst x) (rule remove_first_prefix)
  then have "parseInt (remove_first ''task'' x) = parseInt (js_string_of_num (js_inc v))"
    by simp
  then have "v = js_inc v"
    by (simp add: v_def [symmetric] parseInt_string_of_num)
  then have "v = NaN"
    using js_inc_fixed by simp
  then show ?thesis
    using x by (simp add: js_inc_def js_string_of_num_def)
qed

lemma getElementById_ids:
  "map task_id ts = map task_id ts' \<Longrightarrow> getElementById x ts = getElementById x ts'"
proof (induction ts arbitrary: ts')
  case Nil
  then show ?case by simp
next
  case (Cons t ts)
  then obtain t' us where "ts' = t' # us" by (cases ts') auto
  with Cons show ?case by auto
qed

lemma step_locked:
  assumes "in_session c" "\<forall>j. c \<noteq> NextClick j"
  shows "map locked (tasks (step markup w c)) = map locked (tasks w)"
proof (cases c)
  case (OptionClick i q k)
  then show ?thesis by (simp add: handleOptionClick_locked)
next
  case (HeaderClick i)
  have "map locked (map (\<lambda>(j, t). if j = i then t\<lparr>active := \<not> active t\<rparr> else t\<lparr>active := False\<rparr>) (enumerate 0 ts))
        = map locked ts" for ts :: "task list"
    by (simp add: enumerate_eq_zip map_equality_iff)
  with HeaderClick show ?thesis
    by (simp add: handleTaskHeaderClick_def showCustomAlert_def)
next
  case AlertClose
  then show ?thesis by (simp add: hideCustomAlert_def)
qed (use assms in \<open>simp_all add: in_session_def\<close>)

lemma completion_message_deactivate:
  "completion_message (w\<lparr>tasks := (tasks w)[i := (tasks w ! i)\<lparr>active := False\<rparr>]\<rparr>) = completion_message w"
proof -
  have "map (\<lambda>t. length (quizzes t)) ((tasks w)[i := (tasks w ! i)\<lparr>active := False\<rparr>])
        = map (\<lambda>t. length (quizzes t)) (tasks w)"
    using map_update_same [of "\<lambda>t. length (quizzes t)" "tasks w" i] by (simp add: map_update)
  then show ?thesis
    by (simp add: completion_message_def totalQuestions_def)
qed

lemma restore_task_id [simp]:
  "task_id (restore_next t) = task_id t"
  "task_id (restore_unlocked u t) = task_id t"
  "task_id (restore_answered a t) = task_id t"
  by (simp_all add: restore_next_def restore_unlocked_def restore_answered_def)

lemma restoreUIState_task_ids: "map task_id (tasks (restoreUIState w)) = map task_id (tasks w)"
  by (simp add: restoreUIState_def Let_def comp_def)

lemma load_page_task_ids: "map task_id (tasks (snd (load_page markup store))) = map task_id markup"
  by (simp add: load_page_def initializeGame_def restoreStateFromLocalStorage_def Let_def
        restoreUIState_task_ids split: outcome.splits)

lemma quizId_task_ids:
  "map task_id ts = map task_id us \<Longrightarrow> i < length ts \<Longrightarrow> quizId (ts ! i) q = quizId (us ! i) q"
  by (metis quizId_def length_map nth_map)

section \<open>Loading a page\<close>

lemma load_set_absent [simp]: "load_set None = Returns []" "load_set (Some []) = Returns []"
  by (simp_all add: load_set_def)

lemma load_score_absent [simp]: "load_score None = Num 0" "load_score (Some []) = Num 0"
  by (simp_all add: load_score_def)

lemma restore_answered_Nil [simp]: "restore_answered [] t = t"
proof -
  have "map (\<lambda>(quizIdx, q). q) (enumerate 0 (quizzes t)) = quizzes t"
    by (simp add: enumerate_eq_zip case_prod_unfold)
  then show ?thesis
    by (simp add: restore_answered_def)
qed

lemma restore_unlocked_Nil [simp]: "restore_unlocked [] t = t"
  by (simp add: restore_unlocked_def)

lemma restore_fields [simp]:
  "locked (restore_next t) = locked t"
  "locked (restore_answered a t) = locked t"
  "questionsTotal (restore_next t) = questionsTotal t"
  "questionsTotal (restore_unlocked u t) = questionsTotal t"
  "questionsTotal (restore_answered a t) = questionsTotal t"
  "nextDisabled (restore_unlocked u t) = nextDisabled t"
  "nextDisabled (restore_answered a t) = nextDisabled t"
  "quizzes (restore_next t) = quizzes t"
  "quizzes (restore_unlocked u t) = quizzes t"
  by (simp_all add: restore_next_def restore_unlocked_def restore_answered_def)

lemma totalInTask_restore [simp]:
  "totalInTask (restore_unlocked u t) = totalInTask t"
  "totalInTask (restore_answered a t) = totalInTask t"
  "totalInTask (enable_next t) = totalInTask t"
  by (simp_all add: totalInTask_def)

lemma not_eligible_NaN: "totalInTask t = NaN \<Longrightarrow> \<not> advance_eligible t"
  by (simp add: advance_eligible_def js_ge_def)

lemma restore_next_NaN: "totalInTask t = NaN \<Longrightarrow> restore_next t = t"
  by (simp add: restore_next_def not_eligible_NaN)

lemma tasks_restoreUIState:
  "tasks (restoreUIState w) =
     map (\<lambda>t. restore_next (restore_unlocked (unlockedTaskIds w) (restore_answered (answeredQuizIds w) t)))
       (tasks w)"
  by (simp add: restoreUIState_def Let_def comp_def)

text \<open>The tasks of a loaded page are those of the markup, restored or, after an exception, as they were.\<close>

lemma load_page_task:
  assumes "i < length markup"
  shows "tasks (snd (load_page markup store)) ! i = markup ! i
       \<or> (\<exists>a u. tasks (snd (load_page markup store)) ! i
                  = restore_next (restore_unlocked u (restore_answered a (markup ! i))))"
  using assms
  by (auto simp: load_page_def initializeGame_def restoreStateFromLocalStorage_def Let_def
        tasks_restoreUIState split: outcome.splits)

lemma load_page_length [simp]: "length (tasks (snd (load_page markup store))) = length markup"
  by (auto simp: load_page_def initializeGame_def restoreStateFromLocalStorage_def Let_def
        tasks_restoreUIState split: outcome.splits)

lemma handleOptionClick_length [simp]: "length (tasks (handleOptionClick j q k w)) = length (tasks w)"
  by (simp add: handleOptionClick_def Let_def)

lemma handleOptionClick_NaN:
  assumes "i < length (tasks w)" "totalInTask (tasks w ! i) = NaN"
  shows "nextDisabled (tasks (handleOptionClick j q k w) ! i) = nextDisabled (tasks w ! i)"
    and "totalInTask (tasks (handleOptionClick j q k w) ! i) = NaN"
  using assms
  by (auto simp: handleOptionClick_def Let_def nth_list_update not_eligible_NaN totalInTask_def)

lemma restore_next_locked_map: "map locked (map restore_next ts) = map locked ts"
  by (simp add: comp_def)

lemma load_page_unlocked_absent:
  assumes "store LS_UNLOCKED = None"
  shows "unlockedTaskIds (snd (load_page markup store)) = []"
    and "map locked (tasks (snd (load_page markup store))) = map locked markup"
  using assms
  by (auto simp: load_page_def initializeGame_def restoreStateFromLocalStorage_def Let_def
        tasks_restoreUIState comp_def split: outcome.splits)

lemma load_page_cleared:
  assumes "store LS_SCORE = None" "store LS_ANSWERED = None" "store LS_UNLOCKED = None"
  shows "load_page markup store =
           (Normal, \<lparr>score = Num 0, answeredCorrectlyCount = 0, answeredQuizIds = [],
                     unlockedTaskIds = [], tasks = map restore_next markup, localStorage = store,
                     customAlert = None, listening = True\<rparr>)"
  using assms
  by (simp add: load_page_def initializeGame_def restoreStateFromLocalStorage_def Let_def
        restoreUIState_def comp_def)

section \<open>Score and answered ids over sessions\<close>

lemma slots_saved_upd [simp]:
  "slots_saved (w\<lparr>tasks := ts\<rparr>) = slots_saved w"
  "slots_saved (w\<lparr>customAlert := al\<rparr>) = slots_saved w"
  "slots_absent (w\<lparr>tasks := ts\<rparr>) = slots_absent w"
  "slots_absent (w\<lparr>customAlert := al\<rparr>) = slots_absent w"
  by (simp_all add: slots_saved_def slots_absent_def)

lemma in_sync_upd [simp]:
  "in_sync (w\<lparr>tasks := ts\<rparr>) = in_sync w"
  "in_sync (w\<lparr>customAlert := al\<rparr>) = in_sync w"
  by (simp_all add: in_sync_def)

lemma in_sync_save:
  assumes "score w = Num (int (length (answeredQuizIds w)))"
      and "distinct (answeredQuizIds w)" "distinct (unlockedTaskIds w)"
  shows "in_sync (saveStateToLocalStorage w)"
  using assms by (simp add: in_sync_def slots_saved_save)

lemma in_sync_option: 
  assumes "in_sync w"
  shows "in_sync (handleOptionClick i q k w)"
proof -
  have *: "score w = Num (int (length (answeredQuizIds w)))"
    "distinct (answeredQuizIds w)" "distinct (unlockedTaskIds w)"
    using assms by (simp_all add: in_sync_def)
  show ?thesis
    unfolding handleOptionClick_def Let_def
    using assms *
    by (auto intro!: in_sync_save simp: js_inc_def set_add_def)
qed

lemma in_sync_next:
  assumes "in_sync w"
  shows "in_sync (handleNextButtonClick i w)"
proof -
  have *: "score w = Num (int (length (answeredQuizIds w)))"
    "distinct (answeredQuizIds w)" "distinct (unlockedTaskIds w)"
    using assms by (simp_all add: in_sync_def)
  show ?thesis
    unfolding handleNextButtonClick_def Let_def showCustomAlert_def
    using assms *
    by (auto intro!: in_sync_save simp: distinct_set_add split: option.splits)
qed

lemma in_sync_header: "in_sync w \<Longrightarrow> in_sync (handleTaskHeaderClick i w)"
  by (simp add: handleTaskHeaderClick_def showCustomAlert_def)

lemma in_sync_reload:
  assumes "in_sync w"
  shows "in_sync (snd (load_page markup (localStorage w)))"
proof -
  have *: "score w = Num (int (length (answeredQuizIds w)))"
    "distinct (answeredQuizIds w)" "distinct (unlockedTaskIds w)"
    using assms by (simp_all add: in_sync_def)
  consider (saved) "slots_saved w"
    | (absent) "slots_absent w" "answeredQuizIds w = []" "unlockedTaskIds w = []"
    using assms by (auto simp: in_sync_def)
  then show ?thesis
  proof cases
    case saved
    then have s: "localStorage w LS_SCORE = Some (js_string_of_num (score w))"
      "localStorage w LS_ANSWERED = Some (json_stringify (answeredQuizIds w))"
      "localStorage w LS_UNLOCKED = Some (json_stringify (unlockedTaskIds w))"
      by (simp_all add: slots_saved_def)
    note l = load_page_saved [OF s, of markup]
    show ?thesis
      using l * s by (simp add: in_sync_def slots_saved_def new_Set_distinct)
  next
    case absent
    then show ?thesis
      using load_page_cleared [of "localStorage w" markup]
      by (simp add: in_sync_def slots_absent_def)
  qed
qed

lemma in_sync_cleared:
  assumes "store LS_SCORE = None" "store LS_ANSWERED = None" "store LS_UNLOCKED = None"
  shows "in_sync (snd (load_page markup store))"
  using load_page_cleared [OF assms, of markup] assms
  by (simp add: in_sync_def slots_absent_def)

lemma in_sync_reset: "in_sync (snd (handleResetClick markup w))"
  unfolding handleResetClick_def
  by (rule in_sync_cleared) (simp_all add: clear_slots_def)

lemma in_sync_step: "in_sync w \<Longrightarrow> in_sync (step markup w c)"
  by (cases c)
     (simp_all add: in_sync_option in_sync_next in_sync_header in_sync_reload in_sync_reset
        hideCustomAlert_def)

lemma in_sync_run: "in_sync w \<Longrightarrow> in_sync (run markup w cs)"
  unfolding run_def by (induction cs arbitrary: w) (simp_all add: in_sync_step)

lemma handleOptionClick_score:
  "score (handleOptionClick i q k w) = score w \<or> score (handleOptionClick i q k w) = js_inc (score w)"
  by (simp add: handleOptionClick_def Let_def)

lemma handleNextButtonClick_vars:
  "score (handleNextButtonClick i w) = score w"
  "answeredQuizIds (handleNextButtonClick i w) = answeredQuizIds w"
  "answeredCorrectlyCount (handleNextButtonClick i w) = answeredCorrectlyCount w"
  by (simp_all add: handleNextButtonClick_def Let_def showCustomAlert_def split: option.splits)

lemma step_score:
  assumes "in_session c"
  shows "score (step markup w c) = score w \<or> score (step markup w c) = js_inc (score w)"
  using assms handleOptionClick_score [of _ _ _ w]
  by (cases c)
     (auto simp: in_session_def handleNextButtonClick_vars handleTaskHeaderClick_def
        showCustomAlert_def hideCustomAlert_def)

lemma run_score:
  assumes "\<forall>c \<in> set cs. in_session c"
  shows "(score w = Num n \<longrightarrow> (\<exists>m. score (run markup w cs) = Num m \<and> n \<le> m))
       \<and> (score w = NaN \<longrightarrow> score (run markup w cs) = NaN)"
  using assms
proof (induction cs arbitrary: w n)
  case Nil
  then show ?case by (simp add: run_def)
next
  case (Cons c cs)
  have c: "in_session c" and cs: "\<forall>c \<in> set cs. in_session c"
    using Cons.prems by simp_all
  have r: "run markup w (c # cs) = run markup (step markup w c) cs"
    by (simp add: run_def)
  show ?case
  proof (cases "score w")
    case NaN
    then have "score (step markup w c) = NaN"
      using step_score [OF c, of markup w] by (auto simp: js_inc_def)
    then show ?thesis
      using Cons.IH [OF cs, of "step markup w c"] NaN r by simp
  next
    case (Num k)
    then consider "score (step markup w c) = Num k" | "score (step markup w c) = Num (k + 1)"
      using step_score [OF c, of markup w] by (auto simp: js_inc_def)
    then show ?thesis
    proof cases
      case 1
      then show ?thesis
        using Cons.IH [OF cs, of "step markup w c" k] Num r by auto
    next
      case 2
      then obtain m where "score (run markup (step markup w c) cs) = Num m" "k + 1 \<le> m"
        using Cons.IH [OF cs, of "step markup w c" "k + 1"] by auto
      then show ?thesis
        using Num r by auto
    qed
  qed
qed

section \<open>The gate in front of the next handler\<close>

lemma js_ge_mono: "a \<le> b \<Longrightarrow> js_ge a n \<Longrightarrow> js_ge b n"
  by (cases n) (simp_all add: js_ge_def)

lemma count_answered_mono:
  assumes "length xs = length ys" "\<forall>i < length xs. answered (xs ! i) \<longrightarrow> answered (ys ! i)"
  shows "length (filter answered xs) \<le> length (filter answered ys)"
  using assms
proof (induction xs ys rule: list_induct2)
  case Nil
  then show ?case by simp
next
  case (Cons x xs y ys)
  have "\<forall>i < length xs. answered (xs ! i) \<longrightarrow> answered (ys ! i)"
    using Cons.prems by auto
  then have "length (filter answered xs) \<le> length (filter answered ys)"
    by (rule Cons.IH)
  moreover have "answered x \<longrightarrow> answered y"
    using Cons.prems by auto
  ultimately show ?case by auto
qed

lemma answeredInTask_restore_answered:
  "answeredInTask t \<le> answeredInTask (restore_answered a t)"
proof -
  let ?ys = "map (\<lambda>(quizIdx, q). if quizId t quizIdx \<in> set a then q\<lparr>answered := True\<rparr> else q)
               (enumerate 0 (quizzes t))"
  have "length (filter answered (quizzes t)) \<le> length (filter answered ?ys)"
  proof (rule count_answered_mono)
    show "length (quizzes t) = length ?ys" by simp
    show "\<forall>i < length (quizzes t). answered (quizzes t ! i) \<longrightarrow> answered (?ys ! i)"
      by (simp add: nth_enumerate_eq)
  qed
  then show ?thesis
    by (simp add: answeredInTask_def restore_answered_def)
qed

lemma answeredInTask_mark:
  "answeredInTask t \<le> answeredInTask (t\<lparr>quizzes := (quizzes t)[q := (quizzes t ! q)\<lparr>answered := True\<rparr>]\<rparr>)"
proof -
  let ?ys = "(quizzes t)[q := (quizzes t ! q)\<lparr>answered := True\<rparr>]"
  have "length (filter answered (quizzes t)) \<le> length (filter answered ?ys)"
  proof (rule count_answered_mono)
    show "length (quizzes t) = length ?ys" by simp
    show "\<forall>i < length (quizzes t). answered (quizzes t ! i) \<longrightarrow> answered (?ys ! i)"
    proof (intro allI impI)
      fix i
      assume "i < length (quizzes t)" and "answered (quizzes t ! i)"
      then show "answered (?ys ! i)"
        by (cases "i = q") simp_all
    qed
  qed
  then show ?thesis
    by (simp add: answeredInTask_def)
qed

lemma eligible_mono:
  assumes "advance_eligible t" "answeredInTask t \<le> answeredInTask t'" "questionsTotal t' = questionsTotal t"
  shows "advance_eligible t'"
  using assms js_ge_mono by (auto simp: advance_eligible_def totalInTask_def)

lemma eligible_only_flags [simp]:
  "advance_eligible (enable_next t) = advance_eligible t"
  "advance_eligible (restore_unlocked u t) = advance_eligible t"
  "advance_eligible (t\<lparr>active := b\<rparr>) = advance_eligible t"
  "advance_eligible (t\<lparr>locked := b\<rparr>) = advance_eligible t"
  "advance_eligible (unlockAndActivateTask t) = advance_eligible t"
  "advance_eligible (t\<lparr>nextDisabled := d\<rparr>) = advance_eligible t"
  by (simp_all add: advance_eligible_def answeredInTask_def totalInTask_def enable_next_def
        restore_unlocked_def unlockAndActivateTask_def)

lemma gated_iff: "gated ts \<longleftrightarrow> (\<forall>t \<in> set ts. gate_ok t)"
  by (simp add: gated_def)

lemma gate_ok_restore: "gate_ok t \<Longrightarrow> gate_ok (restore_next (restore_unlocked u (restore_answered a t)))"
proof -
  assume g: "gate_ok t"
  let ?t = "restore_unlocked u (restore_answered a t)"
  have n: "nextDisabled ?t = nextDisabled t" by simp
  have e: "advance_eligible t \<Longrightarrow> advance_eligible ?t"
    using eligible_mono [of t "restore_answered a t"] answeredInTask_restore_answered by simp
  show ?thesis
  proof (cases "advance_eligible ?t")
    case True
    then show ?thesis by (simp add: gate_ok_def restore_next_def)
  next
    case False
    then show ?thesis using g n e by (auto simp: gate_ok_def restore_next_def)
  qed
qed

lemma gate_ok_flags [simp]:
  "gate_ok (t\<lparr>active := b\<rparr>) = gate_ok t"
  "gate_ok (unlockAndActivateTask t) = gate_ok t"
  by (simp_all add: gate_ok_def unlockAndActivateTask_def advance_eligible_def answeredInTask_def totalInTask_def)

lemma gated_update: "gated ts \<Longrightarrow> gate_ok t \<Longrightarrow> gated (ts[i := t])"
  unfolding gated_iff by (metis insertE set_update_subset_insert subsetD)

lemma gated_nth: "gated ts \<Longrightarrow> i < length ts \<Longrightarrow> gate_ok (ts ! i)"
  by (simp add: gated_iff)

lemma gated_load:
  assumes "gated markup"
  shows "gated (tasks (snd (load_page markup store)))"
  using assms
  by (auto simp: load_page_def initializeGame_def restoreStateFromLocalStorage_def Let_def
        tasks_restoreUIState gated_iff gate_ok_restore split: outcome.splits)

lemma gated_option:
  assumes "gated (tasks w)"
  shows "gated (tasks (handleOptionClick i q k w))"
proof (cases "i < length (tasks w)")
  case False
  then show ?thesis using assms by (simp add: handleOptionClick_def)
next
  case True
  let ?t = "tasks w ! i"
  let ?t1 = "?t\<lparr>quizzes := (quizzes ?t)[q := (quizzes ?t ! q)\<lparr>answered := True\<rparr>]\<rparr>"
  have g: "gate_ok ?t" using assms True by (rule gated_nth)
  have "advance_eligible ?t \<Longrightarrow> advance_eligible ?t1"
    using eligible_mono [of ?t ?t1] answeredInTask_mark by simp
  then have g1: "gate_ok ?t1"
    using g by (auto simp: gate_ok_def)
  have g2: "advance_eligible ?t1 \<Longrightarrow> gate_ok (enable_next ?t1)"
    by (simp add: gate_ok_def)
  show ?thesis
    using assms g1 g2 by (auto simp: handleOptionClick_def Let_def intro!: gated_update)
qed

lemma gated_next:
  assumes "gated (tasks w)"
  shows "gated (tasks (handleNextButtonClick i w))"
proof (cases "i < length (tasks w)")
  case False
  then show ?thesis using assms by (simp add: handleNextButtonClick_def)
next
  case True
  let ?ts = "(tasks w)[i := (tasks w ! i)\<lparr>active := False\<rparr>]"
  have "gate_ok ((tasks w ! i)\<lparr>active := False\<rparr>)"
    using assms True by (simp add: gated_nth)
  with assms have g: "gated ?ts" by (rule gated_update)
  have idx: "getElementById x ts = Some j \<Longrightarrow> j < length ts" for x ts j
    by (induction ts arbitrary: j) (auto split: if_splits)
  have "gated (?ts[j := unlockAndActivateTask (?ts ! j)])" if "getElementById x ?ts = Some j" for x j
  proof -
    have "j < length ?ts" using that by (rule idx)
    with g have "gate_ok (unlockAndActivateTask (?ts ! j))" by (simp add: gated_nth)
    with g show ?thesis by (rule gated_update)
  qed
  then show ?thesis
    using g assms
    by (auto simp: handleNextButtonClick_def Let_def showCustomAlert_def split: option.splits)
qed

lemma gated_header:
  assumes "gated (tasks w)"
  shows "gated (tasks (handleTaskHeaderClick i w))"
  using assms
  by (auto simp: handleTaskHeaderClick_def showCustomAlert_def gated_iff in_set_enumerate_eq)

lemma gated_step:
  assumes "gated markup" "gated (tasks w)"
  shows "gated (tasks (step markup w c))"
  using assms
  by (cases c)
     (simp_all add: gated_option gated_next gated_header gated_load hideCustomAlert_def
        handleResetClick_def)

lemma gated_run: "gated markup \<Longrightarrow> gated (tasks w) \<Longrightarrow> gated (tasks (run markup w cs))"
  unfolding run_def by (induction cs arbitrary: w) (simp_all add: gated_step)

lemma handleNextButtonClick_unlocked:
  "set (unlockedTaskIds (handleNextButtonClick i w))
     \<subseteq> insert (nextTaskId (task_id (tasks w ! i))) (set (unlockedTaskIds w))"
proof -
  have idx: "getElementById x ts = Some j \<Longrightarrow> j < length ts \<and> task_id (ts ! j) = x" for x ts j
    by (induction ts arbitrary: j) (auto split: if_splits)
  show ?thesis
    by (auto simp: handleNextButtonClick_def Let_def showCustomAlert_def unlockAndActivateTask_def
          split: option.splits dest!: idx)
qed

section \<open>What the handlers and a load write\<close>

lemma getElementById_Some:
  "getElementById x ts = Some j \<Longrightarrow> j < length ts \<and> task_id (ts ! j) = x"
  by (induction ts arbitrary: j) (auto split: if_splits)

lemma handleNextButtonClick_found:
  assumes "i < length (tasks w)" and "nextDisabled (tasks w ! i) \<noteq> None"
      and "getElementById (nextTaskId (task_id (tasks w ! i))) (tasks w) = Some j"
  shows "unlockedTaskIds (handleNextButtonClick i w)
           = set_add (unlockedTaskIds w) (nextTaskId (task_id (tasks w ! i)))"
    and "\<not> locked (tasks (handleNextButtonClick i w) ! j)"
    and "active (tasks (handleNextButtonClick i w) ! j)"
    and "slots_saved (handleNextButtonClick i w)"
proof -
  let ?ts = "(tasks w)[i := (tasks w ! i)\<lparr>active := False\<rparr>]"
  have "map task_id ?ts = map task_id (tasks w)"
    by (simp add: map_update map_update_same)
  then have g: "getElementById (nextTaskId (task_id (tasks w ! i))) ?ts = Some j"
    using assms(3) getElementById_ids by metis
  then have j: "j < length ?ts" "task_id (?ts ! j) = nextTaskId (task_id (tasks w ! i))"
    using getElementById_Some by blast+
  have h: "handleNextButtonClick i w =
      saveStateToLocalStorage
        (w\<lparr>tasks := ?ts[j := unlockAndActivateTask (?ts ! j)],
           unlockedTaskIds := set_add (unlockedTaskIds w) (task_id (unlockAndActivateTask (?ts ! j)))\<rparr>)"
    using assms(1,2) g by (simp add: handleNextButtonClick_def Let_def)
  show "unlockedTaskIds (handleNextButtonClick i w)
           = set_add (unlockedTaskIds w) (nextTaskId (task_id (tasks w ! i)))"
    using j(2) by (simp add: h unlockAndActivateTask_def)
  show "\<not> locked (tasks (handleNextButtonClick i w) ! j)"
    using j(1) by (simp add: h unlockAndActivateTask_def)
  show "active (tasks (handleNextButtonClick i w) ! j)"
    using j(1) by (simp add: h unlockAndActivateTask_def)
  show "slots_saved (handleNextButtonClick i w)"
    by (simp only: h slots_saved_save)
qed

lemma handleOptionClick_completes:
  assumes "i < length (tasks w)" "q < length (quizzes (tasks w ! i))"
      and "k < length (options (quizzes (tasks w ! i) ! q))"
      and "options (quizzes (tasks w ! i) ! q) ! k"
      and "quizId (tasks w ! i) q \<notin> set (answeredQuizIds w)"
  shows "advance_eligible (tasks (handleOptionClick i q k w) ! i) \<Longrightarrow>
           unlockedTaskIds (handleOptionClick i q k w) = set_add (unlockedTaskIds w) (task_id (tasks w ! i))
           \<and> nextDisabled (tasks (handleOptionClick i q k w) ! i)
               = map_option (\<lambda>_. False) (nextDisabled (tasks w ! i))
           \<and> slots_saved (handleOptionClick i q k w)"
    and "\<not> advance_eligible (tasks (handleOptionClick i q k w) ! i) \<Longrightarrow>
           unlockedTaskIds (handleOptionClick i q k w) = unlockedTaskIds w
           \<and> nextDisabled (tasks (handleOptionClick i q k w) ! i) = nextDisabled (tasks w ! i)"
proof -
  let ?t = "tasks w ! i"
  let ?t1 = "?t\<lparr>quizzes := (quizzes ?t)[q := (quizzes ?t ! q)\<lparr>answered := True\<rparr>]\<rparr>"
  let ?w' = "handleOptionClick i q k w"
  have e: "advance_eligible ?t1 \<Longrightarrow> tasks ?w' ! i = enable_next ?t1
            \<and> unlockedTaskIds ?w' = set_add (unlockedTaskIds w) (task_id ?t) \<and> slots_saved ?w'"
    using assms by (simp add: handleOptionClick_def Let_def slots_saved_save)
  have n: "\<not> advance_eligible ?t1 \<Longrightarrow> tasks ?w' ! i = ?t1 \<and> unlockedTaskIds ?w' = unlockedTaskIds w"
    using assms by (simp add: handleOptionClick_def Let_def)
  have iff: "advance_eligible (tasks ?w' ! i) = advance_eligible ?t1"
    using e n by (cases "advance_eligible ?t1") simp_all
  show "advance_eligible (tasks ?w' ! i) \<Longrightarrow>
           unlockedTaskIds ?w' = set_add (unlockedTaskIds w) (task_id ?t)
           \<and> nextDisabled (tasks ?w' ! i) = map_option (\<lambda>_. False) (nextDisabled ?t)
           \<and> slots_saved ?w'"
    using e iff by (simp add: enable_next_def)
  show "\<not> advance_eligible (tasks ?w' ! i) \<Longrightarrow>
           unlockedTaskIds ?w' = unlockedTaskIds w
           \<and> nextDisabled (tasks ?w' ! i) = nextDisabled ?t"
    using n iff by simp
qed

lemma locked_restore_unlocked:
  "locked (restore_unlocked u t) = (locked t \<and> task_id t \<notin> set u)"
  by (simp add: restore_unlocked_def)

lemma load_page_locked:
  assumes "fst (load_page markup store) = Normal" and "j < length markup"
  shows "locked (tasks (snd (load_page markup store)) ! j)
           = (locked (markup ! j)
              \<and> task_id (markup ! j) \<notin> set (unlockedTaskIds (snd (load_page markup store))))"
  using assms
  by (auto simp: load_page_def initializeGame_def restoreStateFromLocalStorage_def Let_def
        tasks_restoreUIState locked_restore_unlocked split: outcome.splits)



section \<open>The claims\<close>

text \<open>
  C1, as the script has it. In every state reached from a store without the three
  entries, by any commands, reloads and resets among them, the score is the number of
  answered quiz ids. Within a session the score never decreases: a number only grows,
  and a score that is no number stays so.
\<close>

theorem score_counts_answers:
  "(store LS_SCORE = None \<and> store LS_ANSWERED = None \<and> store LS_UNLOCKED = None \<longrightarrow>
      score (run markup (snd (load_page markup store)) cs)
        = Num (int (length (answeredQuizIds (run markup (snd (load_page markup store)) cs)))))
   \<and> ((\<forall>c \<in> set ds. in_session c) \<and> score w = Num n \<longrightarrow>
        (\<exists>m. score (run markup w ds) = Num m \<and> n \<le> m))
   \<and> ((\<forall>c \<in> set ds. in_session c) \<and> score w = NaN \<longrightarrow> score (run markup w ds) = NaN)"
proof (intro conjI impI)
  assume "store LS_SCORE = None \<and> store LS_ANSWERED = None \<and> store LS_UNLOCKED = None"
  then have "in_sync (snd (load_page markup store))"
    using in_sync_cleared by blast
  then have "in_sync (run markup (snd (load_page markup store)) cs)"
    by (rule in_sync_run)
  then show "score (run markup (snd (load_page markup store)) cs)
        = Num (int (length (answeredQuizIds (run markup (snd (load_page markup store)) cs))))"
    by (simp add: in_sync_def)
next
  assume "(\<forall>c \<in> set ds. in_session c) \<and> score w = Num n"
  then show "\<exists>m. score (run markup w ds) = Num m \<and> n \<le> m"
    using run_score by blast
next
  assume "(\<forall>c \<in> set ds. in_session c) \<and> score w = NaN"
  then show "score (run markup w ds) = NaN"
    using run_score by blast
qed

text \<open>
  C1 as stated fails: the score and the answered ids are read from separate entries, and
  a store that holds only a score gives a state in which the two disagree.
\<close>

theorem score_counts_answers_counterexample:
  "score (snd (load_page demo_markup [LS_SCORE \<mapsto> ''5'']))
     \<noteq> Num (int (length (answeredQuizIds (snd (load_page demo_markup [LS_SCORE \<mapsto> ''5''])))))"
  by code_simp

theorem score_counts_answers_witness:
  "Map.empty LS_SCORE = None \<and> Map.empty LS_ANSWERED = None \<and> Map.empty LS_UNLOCKED = None
   \<and> score (run demo_markup (snd (load_page demo_markup Map.empty))
        [OptionClick 0 0 1, OptionClick 0 0 1, Reload, OptionClick 0 1 0, NextClick 0]) = Num 2
   \<and> in_session (OptionClick 0 0 1) \<and> in_session (HeaderClick 0) \<and> in_session (OptionClick 0 0 0)
   \<and> score demo_answered = Num 2
   \<and> (\<exists>m. score (run demo_markup demo_answered [OptionClick 0 0 1, HeaderClick 0, OptionClick 0 0 0]) = Num m
          \<and> 2 \<le> m)"
proof -
  have h: "Map.empty LS_SCORE = None \<and> Map.empty LS_ANSWERED = None \<and> Map.empty LS_UNLOCKED = None"
    by simp
  have a: "answeredQuizIds (run demo_markup (snd (load_page demo_markup Map.empty))
        [OptionClick 0 0 1, OptionClick 0 0 1, Reload, OptionClick 0 1 0, NextClick 0])
          = [''task1_0'', ''task1_1'']"
    by code_simp
  have s: "\<forall>c \<in> set [OptionClick 0 0 1, HeaderClick 0, OptionClick 0 0 0]. in_session c"
    by (simp add: in_session_def)
  have n: "score demo_answered = Num 2"
    by code_simp
  note t = score_counts_answers [where store = Map.empty and markup = demo_markup
      and cs = "[OptionClick 0 0 1, OptionClick 0 0 1, Reload, OptionClick 0 1 0, NextClick 0]"
      and ds = "[OptionClick 0 0 1, HeaderClick 0, OptionClick 0 0 0]" and w = demo_answered and n = 2]
  have eq: "score (run demo_markup (snd (load_page demo_markup Map.empty))
        [OptionClick 0 0 1, OptionClick 0 0 1, Reload, OptionClick 0 1 0, NextClick 0])
      = Num (int (length (answeredQuizIds (run demo_markup (snd (load_page demo_markup Map.empty))
        [OptionClick 0 0 1, OptionClick 0 0 1, Reload, OptionClick 0 1 0, NextClick 0]))))"
    using t h by blast
  have "score (run demo_markup (snd (load_page demo_markup Map.empty))
        [OptionClick 0 0 1, OptionClick 0 0 1, Reload, OptionClick 0 1 0, NextClick 0]) = Num 2"
    by (subst eq, subst a) simp
  moreover have "\<exists>m. score (run demo_markup demo_answered [OptionClick 0 0 1, HeaderClick 0, OptionClick 0 0 0]) = Num m
          \<and> 2 \<le> m"
    using t s n by blast
  moreover have "in_session (OptionClick 0 0 1) \<and> in_session (HeaderClick 0)
      \<and> in_session (OptionClick 0 0 0)"
    by (simp add: in_session_def)
  ultimately show ?thesis
    using h n by blast
qed

text \<open>
  C2, as the script has it. The next handler makes no test of its own. Whenever it runs
  on a task with a next button and an element has the id of the following task, it
  unlocks and activates that task, adds its id to \<open>unlockedTaskIds\<close> and saves the
  variables, whatever has been answered; it never changes the score or the answered ids
  and adds no other id. What rejects an advance on a task that is not eligible is the
  disabled next button: on a page whose markup enables no button of an ineligible task,
  in every state reached from a load, the click changes nothing.
\<close>

theorem advance_gate:
  "score (handleNextButtonClick i w) = score w
   \<and> answeredQuizIds (handleNextButtonClick i w) = answeredQuizIds w
   \<and> (exact_successor (task_id (tasks w ! i))
      \<longrightarrow> set (unlockedTaskIds (handleNextButtonClick i w))
            \<subseteq> insert (nextTaskId (task_id (tasks w ! i))) (set (unlockedTaskIds w)))
   \<and> (exact_successor (task_id (tasks w ! i))
        \<and> i < length (tasks w) \<and> nextDisabled (tasks w ! i) \<noteq> None
        \<and> getElementById (nextTaskId (task_id (tasks w ! i))) (tasks w) = Some k
      \<longrightarrow> unlockedTaskIds (handleNextButtonClick i w)
             = set_add (unlockedTaskIds w) (nextTaskId (task_id (tasks w ! i)))
          \<and> nextTaskId (task_id (tasks w ! i)) \<in> set (unlockedTaskIds (handleNextButtonClick i w))
          \<and> \<not> locked (tasks (handleNextButtonClick i w) ! k)
          \<and> active (tasks (handleNextButtonClick i w) ! k)
          \<and> slots_saved (handleNextButtonClick i w))
   \<and> (gated markup \<and> fst (load_page markup store) \<noteq> OutsideModel
        \<and> j < length (tasks (run markup (snd (load_page markup store)) cs))
        \<and> \<not> advance_eligible (tasks (run markup (snd (load_page markup store)) cs) ! j)
      \<longrightarrow> step markup (run markup (snd (load_page markup store)) cs) (NextClick j)
            = run markup (snd (load_page markup store)) cs)"
proof -
  have gate: "gated (tasks (run markup (snd (load_page markup store)) cs))" if "gated markup"
    using that by (intro gated_run gated_load)
  have found: "unlockedTaskIds (handleNextButtonClick i w)
             = set_add (unlockedTaskIds w) (nextTaskId (task_id (tasks w ! i)))
          \<and> nextTaskId (task_id (tasks w ! i)) \<in> set (unlockedTaskIds (handleNextButtonClick i w))
          \<and> \<not> locked (tasks (handleNextButtonClick i w) ! k)
          \<and> active (tasks (handleNextButtonClick i w) ! k)
          \<and> slots_saved (handleNextButtonClick i w)"
    if "i < length (tasks w) \<and> nextDisabled (tasks w ! i) \<noteq> None
        \<and> getElementById (nextTaskId (task_id (tasks w ! i))) (tasks w) = Some k"
    using that handleNextButtonClick_found [of i w k] by simp
  show ?thesis
    using handleNextButtonClick_unlocked [of i w] gate found
    by (auto simp: handleNextButtonClick_vars gated_iff gate_ok_def)
qed

text \<open>
  C2 as stated fails: the handler, run on a task with no answer given, unlocks the
  following task and writes the store.
\<close>

theorem advance_gate_counterexample:
  "\<not> advance_eligible (tasks demo_fresh ! 0)
   \<and> unlockedTaskIds demo_fresh = []
   \<and> unlockedTaskIds (handleNextButtonClick 0 demo_fresh) = [''task2'']
   \<and> localStorage demo_fresh LS_UNLOCKED = None
   \<and> localStorage (handleNextButtonClick 0 demo_fresh) LS_UNLOCKED = Some (json_stringify [''task2''])"
  by code_simp

theorem advance_gate_witness:
  "exact_successor (task_id (tasks demo_answered ! 0))
   \<and> 0 < length (tasks demo_answered) \<and> nextDisabled (tasks demo_answered ! 0) \<noteq> None
   \<and> getElementById (nextTaskId (task_id (tasks demo_answered ! 0))) (tasks demo_answered) = Some 1
   \<and> unlockedTaskIds demo_answered = [''task1'']
   \<and> unlockedTaskIds (handleNextButtonClick 0 demo_answered) = [''task1'', ''task2'']
   \<and> \<not> locked (tasks (handleNextButtonClick 0 demo_answered) ! 1)
   \<and> active (tasks (handleNextButtonClick 0 demo_answered) ! 1)
   \<and> slots_saved (handleNextButtonClick 0 demo_answered)
   \<and> gated demo_markup
   \<and> fst (load_page demo_markup Map.empty) \<noteq> OutsideModel
   \<and> 1 < length (tasks (run demo_markup (snd (load_page demo_markup Map.empty))
            [OptionClick 0 0 1, OptionClick 0 1 0, NextClick 0]))
   \<and> \<not> advance_eligible (tasks (run demo_markup (snd (load_page demo_markup Map.empty))
            [OptionClick 0 0 1, OptionClick 0 1 0, NextClick 0]) ! 1)
   \<and> step demo_markup (run demo_markup (snd (load_page demo_markup Map.empty))
            [OptionClick 0 0 1, OptionClick 0 1 0, NextClick 0]) (NextClick 1)
       = run demo_markup (snd (load_page demo_markup Map.empty))
            [OptionClick 0 0 1, OptionClick 0 1 0, NextClick 0]"
proof -
  have x: "exact_successor (task_id (tasks demo_answered ! 0))"
    by code_simp
  have h: "0 < length (tasks demo_answered)" "nextDisabled (tasks demo_answered ! 0) \<noteq> None"
    "getElementById (nextTaskId (task_id (tasks demo_answered ! 0))) (tasks demo_answered) = Some 1"
    by code_simp+
  have v: "unlockedTaskIds demo_answered = [''task1'']"
    "set_add (unlockedTaskIds demo_answered) (nextTaskId (task_id (tasks demo_answered ! 0)))
       = [''task1'', ''task2'']"
    by code_simp+
  have g: "gated demo_markup"
    by code_simp
  have n: "fst (load_page demo_markup Map.empty) \<noteq> OutsideModel"
    by code_simp
  have l: "1 < length (tasks (run demo_markup (snd (load_page demo_markup Map.empty))
            [OptionClick 0 0 1, OptionClick 0 1 0, NextClick 0]))"
    by code_simp
  have e: "\<not> advance_eligible (tasks (run demo_markup (snd (load_page demo_markup Map.empty))
            [OptionClick 0 0 1, OptionClick 0 1 0, NextClick 0]) ! 1)"
    by code_simp
  note t = advance_gate [where w = demo_answered and i = 0 and k = 1
      and markup = demo_markup and store = Map.empty and j = 1
      and cs = "[OptionClick 0 0 1, OptionClick 0 1 0, NextClick 0]"]
  have p: "unlockedTaskIds (handleNextButtonClick 0 demo_answered)
             = set_add (unlockedTaskIds demo_answered) (nextTaskId (task_id (tasks demo_answered ! 0)))
          \<and> \<not> locked (tasks (handleNextButtonClick 0 demo_answered) ! 1)
          \<and> active (tasks (handleNextButtonClick 0 demo_answered) ! 1)
          \<and> slots_saved (handleNextButtonClick 0 demo_answered)"
    using t x h by blast
  have r: "step demo_markup (run demo_markup (snd (load_page demo_markup Map.empty))
            [OptionClick 0 0 1, OptionClick 0 1 0, NextClick 0]) (NextClick 1)
       = run demo_markup (snd (load_page demo_markup Map.empty))
            [OptionClick 0 0 1, OptionClick 0 1 0, NextClick 0]"
    using t g n l e by blast
  have u: "unlockedTaskIds (handleNextButtonClick 0 demo_answered) = [''task1'', ''task2'']"
    using p v(2) by simp
  show ?thesis
    using x h v(1) u g n l e p r by blast
qed

text \<open>
  C3. A click on an option of a quiz item whose id is in \<open>answeredQuizIds\<close> returns at
  once: the whole world (variables, page and stored entries) stays as it is. So a second
  submission after a first correct one changes nothing, the score has moved by exactly
  one, and the same holds after the page was reloaded from the store.
\<close>

theorem answered_item_is_noop:
  "(quizId (tasks w ! i) q \<in> set (answeredQuizIds w) \<longrightarrow> handleOptionClick i q k w = w)
   \<and> (i < length (tasks w) \<and> q < length (quizzes (tasks w ! i))
        \<and> k < length (options (quizzes (tasks w ! i) ! q))
        \<and> options (quizzes (tasks w ! i) ! q) ! k
        \<and> quizId (tasks w ! i) q \<notin> set (answeredQuizIds w)
       \<longrightarrow> handleOptionClick i q k' (handleOptionClick i q k w) = handleOptionClick i q k w
          \<and> (\<forall>n. score w = Num n \<longrightarrow>
                score (handleOptionClick i q k' (handleOptionClick i q k w)) = Num (n + 1))
          \<and> (map task_id markup = map task_id (tasks w) \<longrightarrow>
                handleOptionClick i q k' (step markup (handleOptionClick i q k w) Reload)
                  = step markup (handleOptionClick i q k w) Reload))"
proof (intro conjI impI)
  assume "quizId (tasks w ! i) q \<in> set (answeredQuizIds w)"
  then show "handleOptionClick i q k w = w"
    by (rule handleOptionClick_answered)
next
  assume h: "i < length (tasks w) \<and> q < length (quizzes (tasks w ! i))
        \<and> k < length (options (quizzes (tasks w ! i) ! q))
        \<and> options (quizzes (tasks w ! i) ! q) ! k
        \<and> quizId (tasks w ! i) q \<notin> set (answeredQuizIds w)"
  define w' where "w' = handleOptionClick i q k w"
  have sc: "score w' = js_inc (score w)"
    and an: "answeredQuizIds w' = answeredQuizIds w @ [quizId (tasks w ! i) q]"
    and sv: "slots_saved w'"
    using h handleOptionClick_correct [of i w q k] by (simp_all add: w'_def)
  have ids: "map task_id (tasks w') = map task_id (tasks w)"
    by (simp add: w'_def handleOptionClick_task_ids)
  have "quizId (tasks w' ! i) q = quizId (tasks w ! i) q"
    using quizId_task_ids [OF ids] h ids by (metis length_map)
  then have "quizId (tasks w' ! i) q \<in> set (answeredQuizIds w')"
    by (simp add: an)
  then have again: "handleOptionClick i q k' w' = w'"
    by (rule handleOptionClick_answered)
  then show "handleOptionClick i q k' (handleOptionClick i q k w) = handleOptionClick i q k w"
    by (simp add: w'_def)
  show "\<forall>n. score w = Num n \<longrightarrow>
          score (handleOptionClick i q k' (handleOptionClick i q k w)) = Num (n + 1)"
    using again sc by (simp add: w'_def [symmetric] js_inc_def)
  show "handleOptionClick i q k' (step markup (handleOptionClick i q k w) Reload)
          = step markup (handleOptionClick i q k w) Reload"
    if m: "map task_id markup = map task_id (tasks w)"
  proof -
    define r where "r = snd (load_page markup (localStorage w'))"
    have "answeredQuizIds r = new_Set (answeredQuizIds w')"
      using sv load_page_saved(3) by (simp add: r_def slots_saved_def)
    then have mem: "quizId (tasks w ! i) q \<in> set (answeredQuizIds r)"
      by (simp add: set_new_Set an)
    have "map task_id (tasks r) = map task_id (tasks w)"
      by (simp add: r_def load_page_task_ids m)
    then have "quizId (tasks r ! i) q = quizId (tasks w ! i) q"
      using quizId_task_ids h by (metis length_map)
    then have "handleOptionClick i q k' r = r"
      using mem handleOptionClick_answered by simp
    then show ?thesis
      by (simp add: r_def w'_def)
  qed
qed

theorem answered_item_is_noop_witness:
  "quizId (tasks demo_fresh ! 0) 0 \<notin> set (answeredQuizIds demo_fresh)
   \<and> options (quizzes (tasks demo_fresh ! 0) ! 0) ! 1
   \<and> score demo_fresh = Num 0
   \<and> handleOptionClick 0 0 1 (handleOptionClick 0 0 1 demo_fresh) = handleOptionClick 0 0 1 demo_fresh
   \<and> score (handleOptionClick 0 0 1 (handleOptionClick 0 0 1 demo_fresh)) = Num (0 + 1)
   \<and> answeredQuizIds (handleOptionClick 0 0 1 demo_fresh) = [''task1_0'']
   \<and> handleOptionClick 0 0 1 (step demo_markup (handleOptionClick 0 0 1 demo_fresh) Reload)
       = step demo_markup (handleOptionClick 0 0 1 demo_fresh) Reload"
proof -
  have h: "0 < length (tasks demo_fresh) \<and> 0 < length (quizzes (tasks demo_fresh ! 0))
        \<and> 1 < length (options (quizzes (tasks demo_fresh ! 0) ! 0))
        \<and> options (quizzes (tasks demo_fresh ! 0) ! 0) ! 1
        \<and> quizId (tasks demo_fresh ! 0) 0 \<notin> set (answeredQuizIds demo_fresh)"
    by code_simp
  have m: "map task_id demo_markup = map task_id (tasks demo_fresh)"
    by code_simp
  have s: "score demo_fresh = Num 0"
    by code_simp
  have a: "answeredQuizIds (handleOptionClick 0 0 1 demo_fresh) = [''task1_0'']"
    by code_simp
  note t = answered_item_is_noop [where w = demo_fresh and i = 0 and q = 0 and k = 1 and k' = 1
      and markup = demo_markup]
  show ?thesis
    using t h m s a by blast
qed

text \<open>
  C4, as the script has it. When the entry of the unlocked tasks is absent at load,
  \<open>unlockedTaskIds\<close> is empty and nothing adds \<^verbatim>\<open>task1\<close> to it; which tasks are locked
  on the loaded page is what the markup declares.
\<close>

theorem unlocked_slot_absent:
  assumes "store LS_UNLOCKED = None" and "fst (load_page markup store) \<noteq> OutsideModel"
  shows "unlockedTaskIds (snd (load_page markup store)) = []
       \<and> map locked (tasks (snd (load_page markup store))) = map locked markup"
  using load_page_unlocked_absent [of store markup] assms(1) by simp

text \<open>C4 as stated fails: after a load on an empty store, \<^verbatim>\<open>task1\<close> is not in the set.\<close>

theorem unlocked_slot_absent_counterexample:
  "Map.empty LS_UNLOCKED = None \<and> ''task1'' \<notin> set (unlockedTaskIds (snd (load_page demo_markup Map.empty)))"
  by code_simp

theorem unlocked_slot_absent_witness:
  "Map.empty LS_UNLOCKED = None
   \<and> fst (load_page demo_markup Map.empty) \<noteq> OutsideModel
   \<and> unlockedTaskIds (snd (load_page demo_markup Map.empty)) = []
   \<and> map locked (tasks (snd (load_page demo_markup Map.empty))) = [False, True]"
proof -
  have h: "Map.empty LS_UNLOCKED = None" by simp
  have n: "fst (load_page demo_markup Map.empty) \<noteq> OutsideModel" by code_simp
  have m: "map locked demo_markup = [False, True]" by code_simp
  show ?thesis
    using unlocked_slot_absent [of Map.empty demo_markup] h n m by simp
qed




text \<open>
  C6. Saving a state and loading a fresh page from the same store gives back the score,
  the answered quiz ids and the unlocked task ids, for every state whose two sets are
  sets (no element twice) and whose score is a number the model represents exactly.
\<close>

theorem save_load_round_trip:
  assumes "distinct (answeredQuizIds w)" and "distinct (unlockedTaskIds w)"
      and "js_exact (score w)"
  shows "fst (load_page markup (localStorage (saveStateToLocalStorage w))) = Normal
       \<and> score (snd (load_page markup (localStorage (saveStateToLocalStorage w)))) = score w
       \<and> answeredQuizIds (snd (load_page markup (localStorage (saveStateToLocalStorage w)))) = answeredQuizIds w
       \<and> unlockedTaskIds (snd (load_page markup (localStorage (saveStateToLocalStorage w)))) = unlockedTaskIds w"
proof -
  note slots = saved_slots [of w]
  show ?thesis
    using load_page_saved [OF slots, of markup] assms(1,2)
    by (simp add: new_Set_distinct)
qed

theorem save_load_round_trip_witness:
  "distinct (answeredQuizIds demo_answered) \<and> distinct (unlockedTaskIds demo_answered)
   \<and> js_exact (score demo_answered)
   \<and> fst (load_page demo_markup (localStorage (saveStateToLocalStorage demo_answered))) = Normal
   \<and> score (snd (load_page demo_markup (localStorage (saveStateToLocalStorage demo_answered)))) = Num 2
   \<and> answeredQuizIds (snd (load_page demo_markup (localStorage (saveStateToLocalStorage demo_answered))))
       = [''task1_0'', ''task1_1'']
   \<and> unlockedTaskIds (snd (load_page demo_markup (localStorage (saveStateToLocalStorage demo_answered))))
       = [''task1'']"
proof -
  have h1: "distinct (answeredQuizIds demo_answered)"
    by code_simp
  have h2: "distinct (unlockedTaskIds demo_answered)"
    by code_simp
  have h3: "js_exact (score demo_answered)"
    by code_simp
  have v: "score demo_answered = Num 2"
    "answeredQuizIds demo_answered = [''task1_0'', ''task1_1'']"
    "unlockedTaskIds demo_answered = [''task1'']"
    by code_simp+
  note t = save_load_round_trip [OF h1 h2 h3, of demo_markup]
  show ?thesis
    using t h1 h2 h3 v by metis
qed

text \<open>
  C7, as the script has it. The reset handler removes the three entries and reloads the
  page: the load ends normally, the score is \<open>0\<close>, no quiz id is answered, the quizzes
  are those of the markup, and \<open>unlockedTaskIds\<close> is empty.
\<close>

theorem reset_result:
  "handleResetClick markup w =
     (Normal, \<lparr>score = Num 0, answeredCorrectlyCount = 0, answeredQuizIds = [],
               unlockedTaskIds = [], tasks = map restore_next markup,
               localStorage = clear_slots (localStorage w), customAlert = None, listening = True\<rparr>)
   \<and> clear_slots (localStorage w) LS_SCORE = None
   \<and> clear_slots (localStorage w) LS_ANSWERED = None
   \<and> clear_slots (localStorage w) LS_UNLOCKED = None
   \<and> map quizzes (map restore_next markup) = map quizzes markup"
proof -
  have c: "clear_slots (localStorage w) LS_SCORE = None"
    "clear_slots (localStorage w) LS_ANSWERED = None"
    "clear_slots (localStorage w) LS_UNLOCKED = None"
    by (simp_all add: clear_slots_def)
  show ?thesis
    using load_page_cleared [OF c] c by (simp add: handleResetClick_def comp_def)
qed

text \<open>C7 as stated fails: after a reset \<open>unlockedTaskIds\<close> is not \<open>{task1}\<close>.\<close>

theorem reset_result_counterexample:
  "unlockedTaskIds (snd (handleResetClick demo_markup demo_answered)) \<noteq> [''task1'']"
  by code_simp

theorem reset_result_witness:
  "fst (handleResetClick demo_markup demo_answered) = Normal
   \<and> score (snd (handleResetClick demo_markup demo_answered)) = Num 0
   \<and> answeredQuizIds (snd (handleResetClick demo_markup demo_answered)) = []
   \<and> unlockedTaskIds (snd (handleResetClick demo_markup demo_answered)) = []"
  using reset_result [of demo_markup demo_answered] by simp

text \<open>
  C8, as the script has it. A click on an option never adds the id of the following task
  to \<open>unlockedTaskIds\<close> and never changes the \<^verbatim>\<open>locked\<close> class of any task, and of
  the commands of a session only the click on a next button changes a \<^verbatim>\<open>locked\<close>
  class. When a correct answer brings the task to the test of \<open>advance_eligible\<close>, the
  handler enables the next button of the task, adds the id of the task itself to
  \<open>unlockedTaskIds\<close> and saves the variables; otherwise it leaves set and button alone.
  A page load then unlocks exactly the tasks whose ids are in the loaded set. The
  statement on the following id is for ids whose number and successor are exact and
  excludes \<^verbatim>\<open>taskNaN\<close>, which is its own successor.
\<close>

theorem answer_stores_own_id:
  "(exact_successor (task_id (tasks w ! i)) \<and> task_id (tasks w ! i) \<noteq> ''taskNaN''
      \<and> nextTaskId (task_id (tasks w ! i)) \<in> set (unlockedTaskIds (handleOptionClick i q k w))
     \<longrightarrow> nextTaskId (task_id (tasks w ! i)) \<in> set (unlockedTaskIds w))
   \<and> map locked (tasks (handleOptionClick i q k w)) = map locked (tasks w)
   \<and> (in_session c \<and> (\<forall>j. c \<noteq> NextClick j)
        \<longrightarrow> map locked (tasks (step markup w c)) = map locked (tasks w))
   \<and> (i < length (tasks w) \<and> q < length (quizzes (tasks w ! i))
        \<and> k < length (options (quizzes (tasks w ! i) ! q))
        \<and> options (quizzes (tasks w ! i) ! q) ! k
        \<and> quizId (tasks w ! i) q \<notin> set (answeredQuizIds w)
      \<longrightarrow> (advance_eligible (tasks (handleOptionClick i q k w) ! i) \<longrightarrow>
             unlockedTaskIds (handleOptionClick i q k w)
               = set_add (unlockedTaskIds w) (task_id (tasks w ! i))
             \<and> nextDisabled (tasks (handleOptionClick i q k w) ! i)
                 = map_option (\<lambda>_. False) (nextDisabled (tasks w ! i))
             \<and> slots_saved (handleOptionClick i q k w))
          \<and> (\<not> advance_eligible (tasks (handleOptionClick i q k w) ! i) \<longrightarrow>
               unlockedTaskIds (handleOptionClick i q k w) = unlockedTaskIds w
               \<and> nextDisabled (tasks (handleOptionClick i q k w) ! i) = nextDisabled (tasks w ! i)))
   \<and> (fst (load_page markup store) = Normal \<and> j < length markup
      \<longrightarrow> locked (tasks (snd (load_page markup store)) ! j)
            = (locked (markup ! j)
               \<and> task_id (markup ! j) \<notin> set (unlockedTaskIds (snd (load_page markup store)))))"
proof -
  have a: "nextTaskId (task_id (tasks w ! i)) \<in> set (unlockedTaskIds w)"
    if "exact_successor (task_id (tasks w ! i))"
      and "task_id (tasks w ! i) \<noteq> ''taskNaN''"
      and "nextTaskId (task_id (tasks w ! i)) \<in> set (unlockedTaskIds (handleOptionClick i q k w))"
  proof -
    have "nextTaskId (task_id (tasks w ! i)) \<noteq> task_id (tasks w ! i)"
      using that(1,2) nextTaskId_fixed by blast
    then show ?thesis
      using that(3) handleOptionClick_unlocked [of i q k w] by auto
  qed
  have b: "map locked (tasks (handleOptionClick i q k w)) = map locked (tasks w)"
    by (rule handleOptionClick_locked)
  have c: "map locked (tasks (step markup w c)) = map locked (tasks w)"
    if "in_session c" "\<forall>j. c \<noteq> NextClick j"
    using that by (rule step_locked)
  note d = handleOptionClick_completes [of i w q k]
  note e = load_page_locked [of markup store j]
  show ?thesis
    using a b c d e by blast
qed

text \<open>
  C8 as stated fails: the answer that completes a task stores the id of that task in
  \<open>unlockedTaskIds\<close> and in the saved entry, and a task completed while still locked is
  unlocked by the next reload, without any click on a next button.
\<close>

theorem answer_stores_own_id_counterexample:
  "unlockedTaskIds demo_one_left = []
   \<and> localStorage demo_one_left LS_UNLOCKED = Some (json_stringify [])
   \<and> unlockedTaskIds (handleOptionClick 0 1 0 demo_one_left) = [''task1'']
   \<and> localStorage (handleOptionClick 0 1 0 demo_one_left) LS_UNLOCKED = Some (json_stringify [''task1''])
   \<and> map locked (tasks demo_fresh) = [False, True]
   \<and> map locked (tasks (run demo_markup demo_fresh [OptionClick 1 0 0, Reload])) = [False, False]"
  by code_simp

theorem answer_stores_own_id_witness:
  "exact_successor (task_id (tasks demo_one_left ! 0))
   \<and> task_id (tasks demo_one_left ! 0) \<noteq> ''taskNaN''
   \<and> nextTaskId (task_id (tasks demo_one_left ! 0)) = ''task2''
   \<and> ''task2'' \<notin> set (unlockedTaskIds (handleOptionClick 0 1 0 demo_one_left))
   \<and> map locked (tasks (handleOptionClick 0 1 0 demo_one_left)) = [False, True]
   \<and> options (quizzes (tasks demo_one_left ! 0) ! 1) ! 0
   \<and> quizId (tasks demo_one_left ! 0) 1 \<notin> set (answeredQuizIds demo_one_left)
   \<and> advance_eligible (tasks (handleOptionClick 0 1 0 demo_one_left) ! 0)
   \<and> unlockedTaskIds (handleOptionClick 0 1 0 demo_one_left) = [''task1'']
   \<and> nextDisabled (tasks (handleOptionClick 0 1 0 demo_one_left) ! 0) = Some False
   \<and> slots_saved (handleOptionClick 0 1 0 demo_one_left)
   \<and> fst (load_page demo_markup (localStorage (handleOptionClick 0 1 0 demo_one_left))) = Normal
   \<and> locked (tasks (snd (load_page demo_markup (localStorage (handleOptionClick 0 1 0 demo_one_left)))) ! 1)"
proof -
  have x: "exact_successor (task_id (tasks demo_one_left ! 0))"
    "task_id (tasks demo_one_left ! 0) \<noteq> ''taskNaN''"
    "nextTaskId (task_id (tasks demo_one_left ! 0)) = ''task2''"
    "''task2'' \<notin> set (unlockedTaskIds demo_one_left)"
    by code_simp+
  have l: "map locked (tasks demo_one_left) = [False, True]"
    by code_simp
  have h: "0 < length (tasks demo_one_left)" "1 < length (quizzes (tasks demo_one_left ! 0))"
    "0 < length (options (quizzes (tasks demo_one_left ! 0) ! 1))"
    "options (quizzes (tasks demo_one_left ! 0) ! 1) ! 0"
    "quizId (tasks demo_one_left ! 0) 1 \<notin> set (answeredQuizIds demo_one_left)"
    by code_simp+
  have e: "advance_eligible (tasks (handleOptionClick 0 1 0 demo_one_left) ! 0)"
    by code_simp
  have v: "set_add (unlockedTaskIds demo_one_left) (task_id (tasks demo_one_left ! 0)) = [''task1'']"
    "map_option (\<lambda>_. False) (nextDisabled (tasks demo_one_left ! 0)) = Some False"
    by code_simp+
  have n: "fst (load_page demo_markup (localStorage (handleOptionClick 0 1 0 demo_one_left))) = Normal"
    "1 < length demo_markup" "locked (demo_markup ! 1)"
    "task_id (demo_markup ! 1) \<notin> set (unlockedTaskIds
       (snd (load_page demo_markup (localStorage (handleOptionClick 0 1 0 demo_one_left)))))"
    by code_simp+
  note t = answer_stores_own_id [where w = demo_one_left and i = 0 and q = 1 and k = 0
      and markup = demo_markup and j = 1
      and store = "localStorage (handleOptionClick 0 1 0 demo_one_left)"]
  have "nextTaskId (task_id (tasks demo_one_left ! 0))
          \<notin> set (unlockedTaskIds (handleOptionClick 0 1 0 demo_one_left))"
    using t x(1,2) x(4) [folded x(3)] by blast
  then have a: "''task2'' \<notin> set (unlockedTaskIds (handleOptionClick 0 1 0 demo_one_left))"
    unfolding x(3) .
  have "map locked (tasks (handleOptionClick 0 1 0 demo_one_left)) = map locked (tasks demo_one_left)"
    using t by blast
  then have b: "map locked (tasks (handleOptionClick 0 1 0 demo_one_left)) = [False, True]"
    unfolding l .
  have c: "unlockedTaskIds (handleOptionClick 0 1 0 demo_one_left)
             = set_add (unlockedTaskIds demo_one_left) (task_id (tasks demo_one_left ! 0))
           \<and> nextDisabled (tasks (handleOptionClick 0 1 0 demo_one_left) ! 0)
               = map_option (\<lambda>_. False) (nextDisabled (tasks demo_one_left ! 0))
           \<and> slots_saved (handleOptionClick 0 1 0 demo_one_left)"
    using t h e by blast
  have d: "locked (tasks (snd (load_page demo_markup (localStorage (handleOptionClick 0 1 0 demo_one_left)))) ! 1)"
    using t n by blast
  have c': "unlockedTaskIds (handleOptionClick 0 1 0 demo_one_left) = [''task1'']"
    "nextDisabled (tasks (handleOptionClick 0 1 0 demo_one_left) ! 0) = Some False"
    "slots_saved (handleOptionClick 0 1 0 demo_one_left)"
    using c v by simp_all
  show ?thesis
    using x(1,2,3) h(4,5) e n(1) a b c' d by blast
qed

text \<open>
  C9, as the script has it. A task whose \<^verbatim>\<open>data-questions-total\<close> is absent or has no
  leading digit has the total \<open>NaN\<close>; the test \<^verbatim>\<open>answeredInTask >= totalInTask\<close> is then
  false, so neither a page load nor an answer enables its next button.
\<close>

theorem missing_total_never_eligible:
  "(questionsTotal t = None \<longrightarrow> totalInTask t = NaN)
   \<and> (totalInTask t = NaN \<longrightarrow> \<not> advance_eligible t)
   \<and> (i < length markup \<and> totalInTask (markup ! i) = NaN
        \<and> fst (load_page markup store) \<noteq> OutsideModel \<longrightarrow>
        nextDisabled (tasks (snd (load_page markup store)) ! i) = nextDisabled (markup ! i))
   \<and> (i < length (tasks w) \<and> totalInTask (tasks w ! i) = NaN \<longrightarrow>
        nextDisabled (tasks (handleOptionClick j q k w) ! i) = nextDisabled (tasks w ! i)
        \<and> totalInTask (tasks (handleOptionClick j q k w) ! i) = NaN)"
proof (intro conjI impI)
  assume "questionsTotal t = None"
  moreover have "parseInt ''undefined'' = NaN" by code_simp
  ultimately show "totalInTask t = NaN"
    by (simp add: totalInTask_def parseInt_attr_def)
next
  assume "totalInTask t = NaN"
  then show "\<not> advance_eligible t" by (rule not_eligible_NaN)
next
  assume a: "i < length markup \<and> totalInTask (markup ! i) = NaN
        \<and> fst (load_page markup store) \<noteq> OutsideModel"
  then have "restore_next (restore_unlocked u (restore_answered a (markup ! i)))
             = restore_unlocked u (restore_answered a (markup ! i))" for a u
    by (simp add: restore_next_NaN)
  then show "nextDisabled (tasks (snd (load_page markup store)) ! i) = nextDisabled (markup ! i)"
    using load_page_task [of i markup store] a by auto
next
  assume a: "i < length (tasks w) \<and> totalInTask (tasks w ! i) = NaN"
  then show "nextDisabled (tasks (handleOptionClick j q k w) ! i) = nextDisabled (tasks w ! i)"
    using handleOptionClick_NaN(1) by blast
  from a show "totalInTask (tasks (handleOptionClick j q k w) ! i) = NaN"
    using handleOptionClick_NaN(2) by blast
qed

text \<open>
  C9 as stated fails: a task without a declared total and with no answer is not
  eligible, and its next button stays disabled on load.
\<close>

theorem missing_total_counterexample:
  "answeredInTask demo_untotalled = 0
   \<and> \<not> advance_eligible demo_untotalled
   \<and> \<not> advance_eligible (demo_untotalled\<lparr>questionsTotal := Some ''many''\<rparr>)
   \<and> nextDisabled (tasks (snd (load_page [demo_untotalled] Map.empty)) ! 0) = Some True"
  by code_simp

theorem missing_total_never_eligible_witness:
  "questionsTotal demo_untotalled = None
   \<and> 0 < length [demo_untotalled]
   \<and> totalInTask demo_untotalled = NaN
   \<and> \<not> advance_eligible demo_untotalled
   \<and> fst (load_page [demo_untotalled] Map.empty) \<noteq> OutsideModel
   \<and> nextDisabled (tasks (snd (load_page [demo_untotalled] Map.empty)) ! 0) = Some True"
proof -
  have h: "questionsTotal demo_untotalled = None" "0 < length [demo_untotalled]"
    "[demo_untotalled] ! 0 = demo_untotalled" "nextDisabled demo_untotalled = Some True"
    by (simp_all add: demo_untotalled_def)
  have n: "fst (load_page [demo_untotalled] Map.empty) \<noteq> OutsideModel"
    by code_simp
  note t = missing_total_never_eligible [where t = demo_untotalled and i = 0
      and markup = "[demo_untotalled]" and store = Map.empty]
  show ?thesis
    using t h n by metis
qed

text \<open>
  C10. On the last task, where no element has the id of the following task, the next
  handler changes neither the score nor the two sets nor any stored entry: it removes
  \<^verbatim>\<open>active\<close> from the current task and shows the final message.
\<close>

theorem last_task_advance:
  assumes "i < length (tasks w)" and "nextDisabled (tasks w ! i) \<noteq> None"
      and "getElementById (nextTaskId (task_id (tasks w ! i))) (tasks w) = None"
  shows "score (handleNextButtonClick i w) = score w
       \<and> answeredQuizIds (handleNextButtonClick i w) = answeredQuizIds w
       \<and> unlockedTaskIds (handleNextButtonClick i w) = unlockedTaskIds w
       \<and> localStorage (handleNextButtonClick i w) = localStorage w
       \<and> tasks (handleNextButtonClick i w) = (tasks w)[i := (tasks w ! i)\<lparr>active := False\<rparr>]
       \<and> customAlert (handleNextButtonClick i w) = Some (''Congratulations!'', completion_message w)"
proof -
  have "map task_id ((tasks w)[i := (tasks w ! i)\<lparr>active := False\<rparr>]) = map task_id (tasks w)"
    by (simp add: map_update map_update_same)
  then have "getElementById (nextTaskId (task_id (tasks w ! i))) ((tasks w)[i := (tasks w ! i)\<lparr>active := False\<rparr>]) = None"
    using assms(3) getElementById_ids by metis
  then have "handleNextButtonClick i w =
           w\<lparr>tasks := (tasks w)[i := (tasks w ! i)\<lparr>active := False\<rparr>],
             customAlert := Some (''Congratulations!'',
                completion_message (w\<lparr>tasks := (tasks w)[i := (tasks w ! i)\<lparr>active := False\<rparr>]\<rparr>))\<rparr>"
    using assms(1,2) by (simp add: handleNextButtonClick_def Let_def showCustomAlert_def)
  then show ?thesis
    by (simp add: completion_message_deactivate)
qed

theorem last_task_advance_witness:
  "1 < length (tasks demo_finished) \<and> nextDisabled (tasks demo_finished ! 1) \<noteq> None
   \<and> getElementById (nextTaskId (task_id (tasks demo_finished ! 1))) (tasks demo_finished) = None
   \<and> score (handleNextButtonClick 1 demo_finished) = Num 3
   \<and> answeredQuizIds (handleNextButtonClick 1 demo_finished) = [''task1_0'', ''task1_1'', ''task2_0'']
   \<and> unlockedTaskIds (handleNextButtonClick 1 demo_finished) = [''task1'', ''task2'']
   \<and> localStorage (handleNextButtonClick 1 demo_finished) = localStorage demo_finished
   \<and> customAlert (handleNextButtonClick 1 demo_finished)
       = Some (''Congratulations!'', completion_message demo_finished)"
proof -
  have h1: "1 < length (tasks demo_finished)"
    by code_simp
  have h2: "nextDisabled (tasks demo_finished ! 1) \<noteq> None"
    by code_simp
  have h3: "getElementById (nextTaskId (task_id (tasks demo_finished ! 1))) (tasks demo_finished) = None"
    by code_simp
  have v: "score demo_finished = Num 3"
    "answeredQuizIds demo_finished = [''task1_0'', ''task1_1'', ''task2_0'']"
    "unlockedTaskIds demo_finished = [''task1'', ''task2'']"
    by code_simp+
  note t = last_task_advance [OF h1 h2 h3]
  show ?thesis
    using h1 h2 h3 t v by metis
qed

end
